theory Spec2Isabelle
  imports Main "HOL-Library.AList"
begin

section \<open>Errors\<close>

text \<open>
  Go functions return an \<open>error\<close> value next to their result; a runtime panic unwinds
  the call. Both are values here: \<open>Inl\<close> of this type. Each \<open>fmt.Errorf\<close> /
  \<open>xerrors.Errorf\<close> site of the source has its own constructor, \<open>errorMsg\<close> gives its
  text. \<open>StoreError\<close> is an error handed back by one of the two stores.
\<close>

datatype panic = IndexOutOfRange | NilError | NilTypeAssertion

datatype error =
    RoundMismatch
  | InProgress
  | NodesEmpty
  | StoreError string
  | Panic panic

fun errorMsg :: "error \<Rightarrow> string" where
  "errorMsg RoundMismatch = ''round id mismatch''"
| "errorMsg InProgress = ''validation in progress, cannot start again''"
| "errorMsg NodesEmpty = ''edge node and candidate node are empty''"
| "errorMsg (StoreError m) = m"
| "errorMsg (Panic IndexOutOfRange) = ''runtime error: index out of range''"
| "errorMsg (Panic NilError) = ''runtime error: invalid memory address or nil pointer dereference''"
| "errorMsg (Panic NilTypeAssertion) = ''interface conversion: interface {} is nil, not int64''"

section \<open>Node allocation (scheduler API)\<close>

text \<open>
  \<open>api.NodeType\<close> is declared outside the files at hand; the constructors are the
  constants the source uses, \<open>NodeUnknown\<close> being the zero value.
\<close>

datatype NodeType = NodeUnknown | NodeEdge | NodeCandidate | NodeValidate | NodeScheduler

text \<open>
  \<open>AllocateNodes\<close>: the loop \<open>for i := 0; i < count; i++\<close>. \<open>node.Allocate\<close> is not
  among the files; it is the parameter \<open>allocate\<close>, a step on whatever state the
  registry keeps (\<open>'s\<close>) giving an allocation record (\<open>'a\<close>) or an error.
\<close>

function AllocateNodes_loop ::
  "(NodeType \<Rightarrow> 's \<Rightarrow> (error + 'a) \<times> 's) \<Rightarrow> NodeType \<Rightarrow> int \<Rightarrow> int \<Rightarrow> 'a list \<Rightarrow> 's \<Rightarrow> 'a list \<times> 's"
where
  "AllocateNodes_loop allocate nodeType count i list s =
     (if i < count then
        (case allocate nodeType s of
           (Inl err, s') \<Rightarrow> AllocateNodes_loop allocate nodeType count (i + 1) list s'
         | (Inr info, s') \<Rightarrow> AllocateNodes_loop allocate nodeType count (i + 1) (list @ [info]) s')
      else (list, s))"
  by pat_completeness auto
termination
  by (relation "measure (\<lambda>(allocate, nodeType, count, i, list, s). nat (count - i))") auto

declare AllocateNodes_loop.simps [simp del]

definition AllocateNodes ::
  "(NodeType \<Rightarrow> 's \<Rightarrow> (error + 'a) \<times> 's) \<Rightarrow> NodeType \<Rightarrow> int \<Rightarrow> 's \<Rightarrow> (error + 'a list) \<times> 's"
where
  "AllocateNodes allocate nodeType count s =
     (if count \<le> 0 \<or> count > 10 then (Inr [], s)
      else (case AllocateNodes_loop allocate nodeType count 0 [] s of
              (list, s') \<Rightarrow> (Inr list, s')))"

text \<open>
  What the loop is to do, said without the loop: \<open>allocateCalls\<close> are the answers of
  \<open>n\<close> calls of \<open>node.Allocate\<close> made one after the other, with the registry state
  after the last; \<open>allocated\<close> keeps the records of the calls that succeeded, in order.
\<close>

fun allocateCalls ::
  "(NodeType \<Rightarrow> 's \<Rightarrow> (error + 'a) \<times> 's) \<Rightarrow> NodeType \<Rightarrow> nat \<Rightarrow> 's \<Rightarrow> (error + 'a) list \<times> 's"
where
  "allocateCalls allocate nodeType 0 s = ([], s)"
| "allocateCalls allocate nodeType (Suc n) s =
     (case allocate nodeType s of
        (res, s') \<Rightarrow>
          (case allocateCalls allocate nodeType n s' of (rest, s'') \<Rightarrow> (res # rest, s'')))"

fun allocated :: "(error + 'a) list \<Rightarrow> 'a list" where
  "allocated [] = []"
| "allocated (Inl err # rest) = allocated rest"
| "allocated (Inr info # rest) = info # allocated rest"

text \<open>An allocator for examples: the state counts the calls, every second call fails.\<close>

definition flakyAllocate :: "NodeType \<Rightarrow> nat \<Rightarrow> (error + nat) \<times> nat" where
  "flakyAllocate nodeType n =
     (if even n then (Inr n, Suc n) else (Inl (StoreError ''duplicate entry''), Suc n))"

section \<open>Persistent store: the node table and the region suffix\<close>

text \<open>
  The \<open>node\<close> table, one record per row, with the columns of the statements in
  \<open>SetNodeInfo\<close>. \<open>is_online\<close> is the integer the source writes (\<open>IsOnline: 0\<close>).
\<close>

record NodeInfo =
  device_id :: string
  last_time :: string
  geo :: string
  node_type :: string
  is_online :: int
  address :: string
  server_name :: string
  create_time :: string

text \<open>
  \<open>persistent.ValidateStatus\<close> and the rows of \<open>validate_result\<close>
  (\<open>persistent.ValidateResult\<close>) are declared outside the files at hand; the
  constructors and fields are the ones the validation engine names. \<open>Bandwidth\<close> is a
  float in the source, it is only copied and stands as an integer here.
\<close>

datatype ValidateStatus =
    ValidateStatusCreate
  | ValidateStatusSuccess
  | ValidateStatusTimeOut
  | ValidateStatusCancel
  | ValidateStatusFail
  | ValidateStatusOther

record ValidateResult =
  vr_RoundID :: int
  vr_DeviceID :: string
  vr_ValidatorID :: string
  vr_BlockNumber :: int
  vr_Msg :: string
  vr_Status :: ValidateStatus
  vr_Bandwidth :: int
  vr_Duration :: int
  vr_StartTime :: int
  vr_EndTime :: int

text \<open>A row of the per-region block table: the columns \<open>GetBlocksFID\<close> reads.\<close>

record NodeBlocks =
  nb_DeviceID :: string
  nb_FID :: int
  nb_CID :: string

text \<open>
  The database behind \<open>sqlDB.cli\<close>: its tables, and \<open>sqlFault\<close>, the error every
  statement would come back with (connection lost and the like) if there is one.
\<close>

record sqlDB =
  node :: "NodeInfo list"
  validate_result :: "ValidateResult list"
  device_blocks :: "NodeBlocks list"
  sqlFault :: "string option"

text \<open>
  \<^verbatim>\<open>UPDATE t SET ... WHERE ...\<close> on the rows of a table: the rows the condition
  selects are changed, in place.
\<close>

definition sqlUpdate :: "('r \<Rightarrow> bool) \<Rightarrow> ('r \<Rightarrow> 'r) \<Rightarrow> 'r list \<Rightarrow> 'r list" where
  "sqlUpdate wh st rows = map (\<lambda>row. if wh row then st row else row) rows"

text \<open>
  \<open>SetAllNodeOffline\<close>:
  \<^verbatim>\<open>UPDATE node SET is_online=:is_online WHERE server_name=:server_name\<close>
  bound to \<open>&NodeInfo{IsOnline: 0, ServerName: serverName}\<close>. \<open>serverName\<close> is the
  package variable, here an argument.
\<close>

definition SetAllNodeOffline :: "string \<Rightarrow> sqlDB \<Rightarrow> error + sqlDB" where
  "SetAllNodeOffline serverName sd =
     (let info = \<lparr>device_id = [], last_time = [], geo = [], node_type = [], is_online = 0,
                   address = [], server_name = serverName, create_time = []\<rparr>
      in case sqlFault sd of
           Some m \<Rightarrow> Inl (StoreError m)
         | None \<Rightarrow>
             Inr (sd\<lparr>node :=
               sqlUpdate (\<lambda>row. server_name row = server_name info)
                 (\<lambda>row. row\<lparr>is_online := is_online info\<rparr>) (node sd)\<rparr>))"

text \<open>
  Strings are byte lists. \<open>strings.ToLower\<close>: a string of ASCII bytes only is returned
  as it is when it has no upper-case letter, and otherwise with \<open>A\<close>..\<open>Z\<close> moved to
  \<open>a\<close>..\<open>z\<close>; a string with a byte from 128 on goes to
  \<open>strings.Map(unicode.ToLower, s)\<close>, which decodes UTF-8 and consults the Unicode
  tables. That library function is the parameter \<open>mapToLower\<close>.
\<close>

definition isASCII :: "string \<Rightarrow> bool" where
  "isASCII s = list_all (\<lambda>c. (of_char c :: nat) < 128) s"

definition isUpperByte :: "char \<Rightarrow> bool" where
  "isUpperByte c = ((65::nat) \<le> of_char c \<and> (of_char c :: nat) \<le> 90)"

definition hasUpper :: "string \<Rightarrow> bool" where
  "hasUpper s = list_ex isUpperByte s"

definition toLowerByte :: "char \<Rightarrow> char" where
  "toLowerByte c = (if isUpperByte c then char_of (of_char c + (32::nat)) else c)"

definition ToLower :: "(string \<Rightarrow> string) \<Rightarrow> string \<Rightarrow> string" where
  "ToLower mapToLower s =
     (if isASCII s then (if \<not> hasUpper s then s else map toLowerByte s)
      else mapToLower s)"

text \<open>
  \<open>strings.Replace(s, old, new, n)\<close>: the first \<open>n\<close> non-overlapping occurrences of
  \<open>old\<close>, leftmost first, become \<open>new\<close>; all of them when \<open>n < 0\<close>. An empty \<open>old\<close>
  matches before every character and at the end.
\<close>

function Replace :: "string \<Rightarrow> string \<Rightarrow> string \<Rightarrow> int \<Rightarrow> string" where
  "Replace s old new n =
     (if n = 0 then s
      else (case s of
              [] \<Rightarrow> (if old = [] then new else [])
            | c # cs \<Rightarrow>
                if old = [] then new @ c # Replace cs old new (n - 1)
                else if take (length old) s = old
                  then new @ Replace (drop (length old) s) old new (n - 1)
                else c # Replace cs old new n))"
  by pat_completeness auto
termination
  by (relation "measure (\<lambda>(s, old, new, n). length s)") auto

declare Replace.simps [simp del]

definition ReplaceArea :: "(string \<Rightarrow> string) \<Rightarrow> string \<Rightarrow> string" where
  "ReplaceArea mapToLower serverArea =
     (let str = ToLower mapToLower serverArea;
          str = Replace str ''-'' ''_'' (- 1)
      in str)"

text \<open>
  \<open>fmt.Sprintf\<close> of a format and one string operand, for the formats made of plain
  text, \<open>%%\<close> and \<open>%s\<close>. The first \<open>%s\<close> is replaced by the operand and a later one
  by \<open>%!s(MISSING)\<close>; a \<open>%\<close> that ends the format gives \<open>%!(NOVERB)\<close>; an operand
  no verb has used is appended as \<open>%!(EXTRA string=...)\<close>. \<open>Sprintf1\<close> carries the
  operand while it is unused. The answer is \<open>None\<close> for a format with anything else
  after a \<open>%\<close> (another verb, a flag, a width), which is not modelled.
\<close>

fun Sprintf1 :: "string \<Rightarrow> string option \<Rightarrow> string option" where
  "Sprintf1 [] None = Some []"
| "Sprintf1 [] (Some a) = Some (''%!(EXTRA string='' @ a @ '')'')"
| "Sprintf1 [c] arg =
     (if c = CHR ''%'' then map_option (\<lambda>t. ''%!(NOVERB)'' @ t) (Sprintf1 [] arg)
      else map_option (\<lambda>t. c # t) (Sprintf1 [] arg))"
| "Sprintf1 (c # d # rest) arg =
     (if c \<noteq> CHR ''%'' then map_option (\<lambda>t. c # t) (Sprintf1 (d # rest) arg)
      else if d = CHR ''%'' then map_option (\<lambda>t. CHR ''%'' # t) (Sprintf1 rest arg)
      else if d = CHR ''s'' then
        (case arg of
           Some a \<Rightarrow> map_option (\<lambda>t. a @ t) (Sprintf1 rest None)
         | None \<Rightarrow> map_option (\<lambda>t. ''%!s(MISSING)'' @ t) (Sprintf1 rest None))
      else None)"

definition Sprintf :: "string \<Rightarrow> string \<Rightarrow> string option" where
  "Sprintf format a = Sprintf1 format (Some a)"

definition deviceBlockTable :: string where "deviceBlockTable = ''device_blocks_%s''"
definition dataInfoTable :: string where "dataInfoTable = ''data_info_%s''"
definition blockInfoTable :: string where "blockInfoTable = ''block_info_%s''"
definition cacheInfoTable :: string where "cacheInfoTable = ''cache_info_%s''"

text \<open>
  The region tag in the specification's words, for comparison with \<open>ReplaceArea\<close>:
  the region lowercased, with every \<open>-\<close> replaced by \<open>_\<close>. Lowercasing is said here
  without the code's arithmetic: an ASCII string is lowercased letter by letter, each of
  the 26 capital letters going to the small letter at the same place of the alphabet and
  every other character staying; the lowercasing of a string that is not ASCII is
  Unicode's, \<open>unicodeLower\<close>.
\<close>

definition spec_lowerChar :: "char \<Rightarrow> char" where
  "spec_lowerChar c =
     (case map_of (zip ''ABCDEFGHIJKLMNOPQRSTUVWXYZ'' ''abcdefghijklmnopqrstuvwxyz'') c of
        Some l \<Rightarrow> l
      | None \<Rightarrow> c)"

definition spec_lowercased :: "(string \<Rightarrow> string) \<Rightarrow> string \<Rightarrow> string" where
  "spec_lowercased unicodeLower region =
     (if isASCII region then map spec_lowerChar region else unicodeLower region)"

definition spec_regionTag :: "(string \<Rightarrow> string) \<Rightarrow> string \<Rightarrow> string" where
  "spec_regionTag unicodeLower region =
     map (\<lambda>c. if c = CHR ''-'' then CHR ''_'' else c) (spec_lowercased unicodeLower region)"

text \<open>
  For examples: the lowercasing of the one string of the examples that is not ASCII,
  capital E with acute accent, \<open>-\<close>, \<open>X\<close> in UTF-8, whose small letter has the bytes
  C3 A9.
\<close>

definition exampleMapToLower :: "string \<Rightarrow> string" where
  "exampleMapToLower s =
     (if s = [CHR 0xC3, CHR 0x89, CHR ''-'', CHR ''X'']
      then [CHR 0xC3, CHR 0xA9, CHR ''-'', CHR ''x''] else s)"

text \<open>Rows for examples: two nodes of scheduler \<open>s1\<close>, one of scheduler \<open>s2\<close>.\<close>

definition exampleNodes :: "NodeInfo list" where
  "exampleNodes =
     [\<lparr>device_id = ''e1'', last_time = ''t'', geo = ''g'', node_type = ''edge'', is_online = 1,
       address = ''a1'', server_name = ''s1'', create_time = ''c''\<rparr>,
      \<lparr>device_id = ''e2'', last_time = ''t'', geo = ''g'', node_type = ''edge'', is_online = 1,
       address = ''a2'', server_name = ''s2'', create_time = ''c''\<rparr>,
      \<lparr>device_id = ''c1'', last_time = ''t'', geo = ''g'', node_type = ''candidate'', is_online = 0,
       address = ''a3'', server_name = ''s1'', create_time = ''c''\<rparr>]"

section \<open>Persistent store: validation rows and block maps\<close>

text \<open>
  \<open>GetBlocksFID\<close> reads the block rows of a device into a map from fid to cid (a
  later row of the same fid overwrites an earlier one). The engine indexes the map
  with an integer fid.
\<close>

definition GetBlocksFID :: "string \<Rightarrow> sqlDB \<Rightarrow> error + (int \<times> string) list" where
  "GetBlocksFID deviceID sd =
     (case sqlFault sd of
        Some m \<Rightarrow> Inl (StoreError m)
      | None \<Rightarrow>
          Inr (fold (\<lambda>i m. AList.update (nb_FID i) (nb_CID i) m)
                 (filter (\<lambda>i. nb_DeviceID i = deviceID) (device_blocks sd)) []))"



definition sameResultKey :: "ValidateResult \<Rightarrow> ValidateResult \<Rightarrow> bool" where
  "sameResultKey info row = (vr_DeviceID row = vr_DeviceID info \<and> vr_RoundID row = vr_RoundID info)"

definition setFail :: "ValidateResult \<Rightarrow> ValidateResult \<Rightarrow> ValidateResult" where
  "setFail info row =
     row\<lparr>vr_Msg := vr_Msg info, vr_Status := vr_Status info, vr_EndTime := vr_EndTime info\<rparr>"

definition setSuccess :: "ValidateResult \<Rightarrow> ValidateResult \<Rightarrow> ValidateResult" where
  "setSuccess info row =
     row\<lparr>vr_BlockNumber := vr_BlockNumber info, vr_Msg := vr_Msg info,
         vr_Status := vr_Status info, vr_Bandwidth := vr_Bandwidth info,
         vr_Duration := vr_Duration info, vr_EndTime := vr_EndTime info\<rparr>"

definition UpdateFailValidateResultInfo :: "ValidateResult \<Rightarrow> sqlDB \<Rightarrow> error + sqlDB" where
  "UpdateFailValidateResultInfo info sd =
     (case sqlFault sd of
        Some m \<Rightarrow> Inl (StoreError m)
      | None \<Rightarrow>
          Inr (sd\<lparr>validate_result :=
                 sqlUpdate (sameResultKey info) (setFail info) (validate_result sd)\<rparr>))"

definition UpdateSuccessValidateResultInfo :: "ValidateResult \<Rightarrow> sqlDB \<Rightarrow> error + sqlDB" where
  "UpdateSuccessValidateResultInfo info sd =
     (case sqlFault sd of
        Some m \<Rightarrow> Inl (StoreError m)
      | None \<Rightarrow>
          Inr (sd\<lparr>validate_result :=
                 sqlUpdate (sameResultKey info) (setSuccess info) (validate_result sd)\<rparr>))"

section \<open>Ephemeral store\<close>

text \<open>
  Modelled from the spec: the cache store is an interface whose implementation is not
  among the files. It holds the round id counter, the set of devices "currently
  verifying", the elected validator list and each node's \<open>max_fid\<close>.
  \<open>GetPreviousAndCurrentRoundId\<close> reads and increments the round id, obtaining the
  previous and the current one; the verifying set is added to, removed from, cleared,
  listed and counted; a device is in it at most once. \<open>cacheFault\<close> is the error every
  call would come back with, if there is one.
\<close>

record cacheDB =
  validateRoundID :: int
  verifying :: "string list"
  validators :: "string list"
  nodeCacheFid :: "(string \<times> int) list"
  cacheFault :: "string option"





definition RemoveNodeWithVerifyingList :: "string \<Rightarrow> cacheDB \<Rightarrow> error + cacheDB" where
  "RemoveNodeWithVerifyingList deviceID c =
     (case cacheFault c of
        Some m \<Rightarrow> Inl (StoreError m)
      | None \<Rightarrow> Inr (c\<lparr>verifying := removeAll deviceID (verifying c)\<rparr>))"

definition CountVerifyingNode :: "cacheDB \<Rightarrow> error + int" where
  "CountVerifyingNode c =
     (case cacheFault c of
        Some m \<Rightarrow> Inl (StoreError m)
      | None \<Rightarrow> Inr (int (length (verifying c))))"



section \<open>Validation engine: state\<close>

datatype validateState = validationNotStarted | validationStarting

definition errMsgTimeOut :: string where "errMsgTimeOut = ''time out''"
definition errMsgCancel :: string where "errMsgCancel = ''verification canceled due to download''"

text \<open>
  The fields of \<open>Validate\<close> that carry state. \<open>maxFidMap\<close> is the \<open>sync.Map\<close> from
  device id to fid. The \<open>cron\<close> scheduler is \<open>crontab\<close>: running or stopped; a
  goroutine that sleeps \<open>n\<close> minutes and then calls \<open>crontab.Start()\<close> is the entry
  \<open>n\<close> of \<open>pendingStart\<close>.
\<close>

record Validate =
  seed :: int
  preRoundId :: int
  curRoundId :: int
  duration :: int
  interval :: int
  maxFidMap :: "(string \<times> int) list"
  validateState :: validateState
  enable :: bool
  crontab :: bool
  pendingStart :: "int list"

text \<open>
  \<open>api.ValidateResults\<close> and \<open>api.ReqValidate\<close>, with the fields the engine reads and
  writes.
\<close>

record ValidateResults =
  RoundID :: int
  DeviceID :: string
  Cids :: "string list"
  RandomCount :: int
  Bandwidth :: int
  CostTime :: int
  IsCancel :: bool
  IsTimeout :: bool
  Validator :: string

record ReqValidate =
  req_Seed :: int
  req_NodeURL :: string
  req_Duration :: int
  req_RoundID :: int
  req_NodeType :: NodeType
  req_MaxFid :: int

text \<open>
  What the engine acts on: its own fields, the two stores, and the batches handed to
  the validators' \<open>ValidateBlocks\<close>, in the order sent.
\<close>

record world =
  v :: Validate
  cache :: cacheDB
  sql :: sqlDB
  rpc :: "(string \<times> ReqValidate list) list"

section \<open>Validation engine: collecting results\<close>

definition UpdateFailValidateResult ::
  "int \<Rightarrow> int \<Rightarrow> string \<Rightarrow> string \<Rightarrow> ValidateStatus \<Rightarrow> sqlDB \<Rightarrow> error + sqlDB"
where
  "UpdateFailValidateResult now roundId deviceID msg status sd =
     (let resultInfo = \<lparr>vr_RoundID = roundId, vr_DeviceID = deviceID, vr_ValidatorID = [],
                         vr_BlockNumber = 0, vr_Msg = msg, vr_Status = status, vr_Bandwidth = 0,
                         vr_Duration = 0, vr_StartTime = 0, vr_EndTime = now\<rparr>
      in UpdateFailValidateResultInfo resultInfo sd)"

definition UpdateSuccessValidateResult :: "int \<Rightarrow> ValidateResults \<Rightarrow> sqlDB \<Rightarrow> error + sqlDB" where
  "UpdateSuccessValidateResult now validateResults sd =
     (let resultInfo = \<lparr>vr_RoundID = RoundID validateResults,
                         vr_DeviceID = DeviceID validateResults, vr_ValidatorID = [],
                         vr_BlockNumber = int (length (Cids validateResults)), vr_Msg = ''ok'',
                         vr_Status = ValidateStatusSuccess,
                         vr_Bandwidth = Bandwidth validateResults,
                         vr_Duration = CostTime validateResults, vr_StartTime = 0,
                         vr_EndTime = now\<rparr>
      in UpdateSuccessValidateResultInfo resultInfo sd)"

text \<open>A call on the persistent store from the engine: the error it returns, the store after.\<close>

definition persist :: "(sqlDB \<Rightarrow> error + sqlDB) \<Rightarrow> world \<Rightarrow> error option \<times> world" where
  "persist f w = (case f (sql w) of Inl e \<Rightarrow> (Some e, w) | Inr sd \<Rightarrow> (None, w\<lparr>sql := sd\<rparr>))"

text \<open>
  A \<open>*rand.Rand\<close> is the list of the raw values it will still produce (zeros once the
  list is used up); \<open>Intn n\<close>, for \<open>n > 0\<close>, takes the next one into \<open>[0, n)\<close>. Any
  generator with results in that range is such a list.
\<close>

type_synonym rand = "nat list"

definition Intn :: "int \<Rightarrow> rand \<Rightarrow> int \<times> rand" where
  "Intn n r = (case r of [] \<Rightarrow> (0, []) | x # xs \<Rightarrow> (int x mod n, xs))"

definition getRandNum :: "int \<Rightarrow> rand \<Rightarrow> int \<times> rand" where
  "getRandNum bound r = (if bound > 0 then Intn bound r else (bound, r))"

text \<open>
  \<open>compareCid\<close>; \<open>helper.CIDString2HashString\<close> is not among the files and is the
  parameter \<open>h\<close>.
\<close>

definition compareCid :: "(string \<Rightarrow> error + string) \<Rightarrow> string \<Rightarrow> string \<Rightarrow> bool" where
  "compareCid h cidStr1 cidStr2 =
     (case h cidStr1 of
        Inl err \<Rightarrow> False
      | Inr hash1 \<Rightarrow> (case h cidStr2 of Inl err \<Rightarrow> False | Inr hash2 \<Rightarrow> hash1 = hash2))"

text \<open>The verb \<open>%d\<close>.\<close>

function showNat :: "nat \<Rightarrow> string" where
  "showNat n =
     (if n < 10 then [''0123456789'' ! n]
      else showNat (n div 10) @ [''0123456789'' ! (n mod 10)])"
  by pat_completeness auto
termination
  by (relation "measure id") auto

declare showNat.simps [simp del]

definition showInt :: "int \<Rightarrow> string" where
  "showInt i = (if i < 0 then CHR ''-'' # showNat (nat (- i)) else showNat (nat i))"

text \<open>
  Indexing a Go map of strings: the value stored, or the empty string for a missing key.
\<close>

definition mapIndex :: "('k \<times> string) list \<Rightarrow> 'k \<Rightarrow> string" where
  "mapIndex m k = (case map_of m k of None \<Rightarrow> [] | Some c \<Rightarrow> c)"

text \<open>
  The scoring loop of \<open>handleValidateResult\<close>,
  \<open>for index := 0; index < validateResults.RandomCount; index++\<close>, from \<open>index\<close> on.
  \<open>cids\<close> and \<open>randomCount\<close> are the two fields of the result the loop reads. It ends
  with all compared cids matching, with the message of the first mismatch, or in the
  index-out-of-range panic of \<open>validateResults.Cids[index]\<close>.
\<close>

datatype score = Matched | Mismatch string | OutOfRange

function scoreLoop ::
  "(string \<Rightarrow> error + string) \<Rightarrow> (int \<times> string) list \<Rightarrow> string list \<Rightarrow> int \<Rightarrow> int \<Rightarrow> rand \<Rightarrow> int \<Rightarrow> score"
where
  "scoreLoop h cacheInfos cids randomCount maxFid r index =
     (if index < randomCount then
        (case getRandNum maxFid r of
           (n, r') \<Rightarrow>
             (let fid = n + 1 in
              if index < 0 \<or> int (length cids) \<le> index then OutOfRange
              else
                (let resultCid = cids ! nat index;
                     cid = mapIndex cacheInfos fid
                 in if cid = [] then scoreLoop h cacheInfos cids randomCount maxFid r' (index + 1)
                    else if \<not> compareCid h cid resultCid then
                      Mismatch (''validate fail; resultCid:'' @ resultCid @ '',cid_db:'' @ cid @
                                '',fid:'' @ showInt fid @ '',index:'' @ showInt index)
                    else scoreLoop h cacheInfos cids randomCount maxFid r' (index + 1))))
      else Matched)"
  by pat_completeness auto
termination
  by (relation "measure (\<lambda>(h, cacheInfos, cids, randomCount, maxFid, r, index). nat (randomCount - index))")
    auto

declare scoreLoop.simps [simp del]

text \<open>The fids of the next \<open>n\<close> iterations of the loop, in order.\<close>

fun drawnFids :: "int \<Rightarrow> rand \<Rightarrow> nat \<Rightarrow> int list" where
  "drawnFids maxFid r 0 = []"
| "drawnFids maxFid r (Suc n) =
     (case getRandNum maxFid r of (x, r') \<Rightarrow> (x + 1) # drawnFids maxFid r' n)"

text \<open>
  An iteration that does not end the loop: a drawn fid and the cid returned at its index
  pass when the node's map has no cid at the fid or the two cids have equal hashes.
\<close>

definition passes ::
  "(string \<Rightarrow> error + string) \<Rightarrow> (int \<times> string) list \<Rightarrow> int \<times> string \<Rightarrow> bool" where
  "passes h cacheInfos p =
     (mapIndex cacheInfos (fst p) = [] \<or> compareCid h (mapIndex cacheInfos (fst p)) (snd p))"

text \<open>
  What the loop is to answer, said without the loop. \<open>mismatchMsg\<close> is the message of
  a mismatch at an index; \<open>firstMismatch\<close> goes through the drawn fids paired with the
  returned cids, counting the index, and gives the message of the first pair that does
  not pass.
\<close>

definition mismatchMsg :: "string \<Rightarrow> string \<Rightarrow> int \<Rightarrow> int \<Rightarrow> string" where
  "mismatchMsg resultCid cid fid index =
     ''validate fail; resultCid:'' @ resultCid @ '',cid_db:'' @ cid @
     '',fid:'' @ showInt fid @ '',index:'' @ showInt index"

fun firstMismatch ::
  "(string \<Rightarrow> error + string) \<Rightarrow> (int \<times> string) list \<Rightarrow> (int \<times> string) list \<Rightarrow> int \<Rightarrow> string option"
where
  "firstMismatch h cacheInfos [] index = None"
| "firstMismatch h cacheInfos (p # ps) index =
     (if passes h cacheInfos p then firstMismatch h cacheInfos ps (index + 1)
      else Some (mismatchMsg (snd p) (mapIndex cacheInfos (fst p)) (fst p) index))"

text \<open>
  \<open>handleValidateResult\<close> after the round id check and the two \<open>defer\<close>s: the error
  returned (a panic included) and the world after. \<open>err.Error()\<close> on the nil error of
  a successful query that found no block row is the nil dereference; the type assertion
  on a device that \<open>maxFidMap\<close> does not hold is the failed conversion.
\<close>

definition handleValidateResult_body ::
  "(int \<Rightarrow> rand) \<Rightarrow> (string \<Rightarrow> error + string) \<Rightarrow> int \<Rightarrow> ValidateResults \<Rightarrow> world \<Rightarrow> error option \<times> world"
where
  "handleValidateResult_body NewSource h now validateResults w =
     (if IsCancel validateResults then
        persist (UpdateFailValidateResult now (RoundID validateResults) (DeviceID validateResults)
                   errMsgCancel ValidateStatusCancel) w
      else if IsTimeout validateResults then
        persist (UpdateFailValidateResult now (RoundID validateResults) (DeviceID validateResults)
                   errMsgTimeOut ValidateStatusTimeOut) w
      else
        (let r = NewSource (seed (v w));
             cidLength = int (length (Cids validateResults))
         in if cidLength \<le> 0 \<or> RandomCount validateResults \<le> 0 then
              persist (UpdateFailValidateResult now (RoundID validateResults)
                         (DeviceID validateResults)
                         ''validate result is null or random count is 0'' ValidateStatusFail) w
            else
              (case GetBlocksFID (DeviceID validateResults) (sql w) of
                 Inl err \<Rightarrow>
                   persist (UpdateFailValidateResult now (RoundID validateResults)
                              (DeviceID validateResults)
                              (''failed to query : '' @ errorMsg err) ValidateStatusOther) w
               | Inr cacheInfos \<Rightarrow>
                   if int (length cacheInfos) \<le> 0 then (Some (Panic NilError), w)
                   else
                     (case map_of (maxFidMap (v w)) (DeviceID validateResults) of
                        None \<Rightarrow> (Some (Panic NilTypeAssertion), w)
                      | Some maxFid \<Rightarrow>
                          (case scoreLoop h cacheInfos (Cids validateResults)
                                  (RandomCount validateResults) maxFid r 0 of
                             OutOfRange \<Rightarrow> (Some (Panic IndexOutOfRange), w)
                           | Mismatch msg \<Rightarrow>
                               persist (UpdateFailValidateResult now (RoundID validateResults)
                                          (DeviceID validateResults) msg ValidateStatusFail) w
                           | Matched \<Rightarrow>
                               persist (UpdateSuccessValidateResult now validateResults) w)))))"

text \<open>
  The two deferred functions, in the order they run: the device leaves the verifying
  set (an error is logged), then, unless counting fails, an empty set puts the engine
  back to \<open>validationNotStarted\<close>.
\<close>

definition handleValidateResult_deferred :: "string \<Rightarrow> world \<Rightarrow> world" where
  "handleValidateResult_deferred deviceID w =
     (let w1 = (case RemoveNodeWithVerifyingList deviceID (cache w) of
                  Inl err \<Rightarrow> w
                | Inr c \<Rightarrow> w\<lparr>cache := c\<rparr>)
      in case CountVerifyingNode (cache w1) of
           Inl err \<Rightarrow> w1
         | Inr count \<Rightarrow>
             if count = 0 then w1\<lparr>v := (v w1)\<lparr>validateState := validationNotStarted\<rparr>\<rparr>
             else w1)"

text \<open>
  \<open>handleValidateResult\<close>. \<open>NewSource\<close> gives the generator of a seed, \<open>now\<close> is
  \<open>time.Now()\<close>. A result of another round returns before the \<open>defer\<close>s are set up;
  otherwise they run whichever way the body ends.
\<close>

definition handleValidateResult ::
  "(int \<Rightarrow> rand) \<Rightarrow> (string \<Rightarrow> error + string) \<Rightarrow> int \<Rightarrow> ValidateResults \<Rightarrow> world \<Rightarrow> error option \<times> world"
where
  "handleValidateResult NewSource h now validateResults w =
     (if RoundID validateResults \<noteq> curRoundId (v w) then (Some RoundMismatch, w)
      else (case handleValidateResult_body NewSource h now validateResults w of
              (err, w') \<Rightarrow> (err, handleValidateResult_deferred (DeviceID validateResults) w')))"

section \<open>Validation engine: planning a round\<close>

text \<open>
  The node registry: the sessions of the online edge and candidate nodes
  (\<open>node.EdgeNode\<close>, \<open>node.CandidateNode\<close>; declared outside the files at hand) with
  their device id and address. A \<open>sync.Map\<close> is ranged over in no fixed order: the lists
  are the maps in the order of one traversal.
\<close>

record BaseInfo =
  DeviceId :: string
  Address :: string

record Manager =
  EdgeNodeMap :: "BaseInfo list"
  CandidateNodeMap :: "BaseInfo list"


record tmpDeviceMeta =
  deviceId :: string
  nodeType :: NodeType
  addr :: string

text \<open>
  \<open>generatorForRandomNumber\<close> reseeds the global generator from the clock at every
  call; \<open>r\<close> holds the raw values the calls will see.
\<close>

definition generatorForRandomNumber :: "int \<Rightarrow> int \<Rightarrow> rand \<Rightarrow> int \<times> rand" where
  "generatorForRandomNumber start stop r =
     (let bound = stop - start
      in if bound \<le> 0 then (start, r)
         else (case Intn bound r of (y, r') \<Rightarrow> (start + y, r')))"

text \<open>Indexing a slice panics outside \<open>[0, len)\<close>.\<close>

definition sliceIndex :: "'a list \<Rightarrow> int \<Rightarrow> error + 'a" where
  "sliceIndex xs i =
     (if 0 \<le> i \<and> i < int (length xs) then Inr (xs ! nat i) else Inl (Panic IndexOutOfRange))"

text \<open>
  The plan \<open>map[string][]tmpDeviceMeta\<close>, as an association list with one entry per
  key. \<open>assign\<close> is the \<open>if validated, ok := result[validatorID]\<close> of both loops.
\<close>

type_synonym plan = "(string \<times> tmpDeviceMeta list) list"

definition assign :: "string \<Rightarrow> tmpDeviceMeta \<Rightarrow> plan \<Rightarrow> plan" where
  "assign validatorID tn result =
     (case map_of result validatorID of
        Some validated \<Rightarrow> AList.update validatorID (validated @ [tn]) result
      | None \<Rightarrow> AList.update validatorID ([] @ [tn]) result)"

text \<open>The targets a plan gives a validator: \<open>result[validatorID]\<close>, nil without an entry.\<close>

definition targets :: "plan \<Rightarrow> string \<Rightarrow> tmpDeviceMeta list" where
  "targets result validatorID =
     (case map_of result validatorID of None \<Rightarrow> [] | Some validated \<Rightarrow> validated)"

definition edgeMeta :: "BaseInfo \<Rightarrow> tmpDeviceMeta" where
  "edgeMeta edgeNode =
     \<lparr>deviceId = DeviceId edgeNode, nodeType = NodeEdge, addr = Address edgeNode\<rparr>"

definition candidateMeta :: "BaseInfo \<Rightarrow> tmpDeviceMeta" where
  "candidateMeta candidateNode =
     \<lparr>deviceId = DeviceId candidateNode, nodeType = NodeCandidate, addr = Address candidateNode\<rparr>"

text \<open>The two \<open>Range\<close> loops of \<open>validateMapping\<close>, over the nodes still to visit.\<close>

fun rangeEdges :: "string list \<Rightarrow> BaseInfo list \<Rightarrow> plan \<Rightarrow> rand \<Rightarrow> error + plan \<times> rand" where
  "rangeEdges validatorList [] result r = Inr (result, r)"
| "rangeEdges validatorList (edgeNode # rest) result r =
     (let tn = edgeMeta edgeNode
      in case generatorForRandomNumber 0 (int (length validatorList)) r of
           (i, r') \<Rightarrow>
             (case sliceIndex validatorList i of
                Inl err \<Rightarrow> Inl err
              | Inr validatorID \<Rightarrow> rangeEdges validatorList rest (assign validatorID tn result) r'))"

fun rangeCandidates :: "string list \<Rightarrow> BaseInfo list \<Rightarrow> plan \<Rightarrow> rand \<Rightarrow> error + plan \<times> rand" where
  "rangeCandidates validatorList [] result r = Inr (result, r)"
| "rangeCandidates validatorList (candidateNode # rest) result r =
     (let tn = candidateMeta candidateNode
      in case generatorForRandomNumber 0 (int (length validatorList)) r of
           (i, r') \<Rightarrow>
             (case sliceIndex validatorList i of
                Inl err \<Rightarrow> Inl err
              | Inr validatorID \<Rightarrow>
                  if validatorID = DeviceId candidateNode
                  then rangeCandidates validatorList rest result r'
                  else rangeCandidates validatorList rest (assign validatorID tn result) r'))"

definition validateMapping :: "Manager \<Rightarrow> string list \<Rightarrow> rand \<Rightarrow> error + plan" where
  "validateMapping nodeManager validatorList r =
     (case rangeEdges validatorList (EdgeNodeMap nodeManager) [] r of
        Inl err \<Rightarrow> Inl err
      | Inr (result, r') \<Rightarrow>
          (case rangeCandidates validatorList (CandidateNodeMap nodeManager) result r' of
             Inl err \<Rightarrow> Inl err
           | Inr (result', r'') \<Rightarrow>
               if length result' = 0 then Inl NodesEmpty else Inr result'))"

text \<open>
  The validators drawn by \<open>n\<close> consecutive iterations, for a non-empty validator list.
\<close>

fun picks :: "string list \<Rightarrow> rand \<Rightarrow> nat \<Rightarrow> string list" where
  "picks validatorList r 0 = []"
| "picks validatorList r (Suc n) =
     (case generatorForRandomNumber 0 (int (length validatorList)) r of
        (i, r') \<Rightarrow> validatorList ! nat i # picks validatorList r' n)"

section \<open>Validation engine: running a round\<close>









section \<open>Example data\<close>

text \<open>
  Round 7 is running on seed 42; edge \<open>e1\<close>, audited by \<open>c1\<close>, holds one block at
  fid 3 and its row is still in state \<open>created\<close>.
\<close>

definition exampleRow :: ValidateResult where
  "exampleRow =
     \<lparr>vr_RoundID = 7, vr_DeviceID = ''e1'', vr_ValidatorID = ''c1'', vr_BlockNumber = 0,
      vr_Msg = [], vr_Status = ValidateStatusCreate, vr_Bandwidth = 0, vr_Duration = 0,
      vr_StartTime = 100, vr_EndTime = 0\<rparr>"

definition exampleEngine :: Validate where
  "exampleEngine =
     \<lparr>seed = 42, preRoundId = 6, curRoundId = 7, duration = 10, interval = 5,
      maxFidMap = [(''e1'', 10)], validateState = validationStarting, enable = True,
      crontab = True, pendingStart = []\<rparr>"

definition exampleCache :: cacheDB where
  "exampleCache =
     \<lparr>validateRoundID = 7, verifying = [''e1''], validators = [''c1''],
      nodeCacheFid = [(''e1'', 10)], cacheFault = None\<rparr>"

definition exampleSql :: sqlDB where
  "exampleSql =
     \<lparr>node = [], validate_result = [exampleRow],
      device_blocks = [\<lparr>nb_DeviceID = ''e1'', nb_FID = 3, nb_CID = ''CIDA''\<rparr>],
      sqlFault = None\<rparr>"

definition exampleWorld :: world where
  "exampleWorld = \<lparr>v = exampleEngine, cache = exampleCache, sql = exampleSql, rpc = []\<rparr>"

definition exampleResults :: ValidateResults where
  "exampleResults =
     \<lparr>RoundID = 7, DeviceID = ''e1'', Cids = [''CIDX''], RandomCount = 1, Bandwidth = 0,
      CostTime = 3, IsCancel = False, IsTimeout = False, Validator = ''c1''\<rparr>"

text \<open>A hash function for examples: every cid string is its own hash.\<close>

definition plainHash :: "string \<Rightarrow> error + string" where
  "plainHash cidStr = Inr cidStr"

text \<open>
  Two validators \<open>c1\<close> and \<open>c2\<close>, both online candidates, and one online edge
  \<open>e1\<close>; the plan the draws 1, 0, 0 give: \<open>e1\<close> goes to \<open>c2\<close>, \<open>c1\<close> draws itself,
  \<open>c2\<close> goes to \<open>c1\<close>.
\<close>

definition exampleManager :: Manager where
  "exampleManager =
     \<lparr>EdgeNodeMap = [\<lparr>DeviceId = ''e1'', Address = ''10.0.0.1''\<rparr>],
      CandidateNodeMap = [\<lparr>DeviceId = ''c1'', Address = ''10.0.0.2''\<rparr>,
                          \<lparr>DeviceId = ''c2'', Address = ''10.0.0.3''\<rparr>]\<rparr>"

definition examplePlan :: plan where
  "examplePlan =
     [(''c2'', [\<lparr>deviceId = ''e1'', nodeType = NodeEdge, addr = ''10.0.0.1''\<rparr>]),
      (''c1'', [\<lparr>deviceId = ''c2'', nodeType = NodeCandidate, addr = ''10.0.0.3''\<rparr>])]"

section \<open>Properties of node allocation\<close>

lemma AllocateNodes_loop_length:
  "AllocateNodes_loop allocate ntype count i list s = (list', s')
   \<Longrightarrow> int (length list') \<le> int (length list) + max 0 (count - i)"
proof (induction allocate ntype count i list s rule: AllocateNodes_loop.induct)
  case (1 allocate ntype count i list s)
  show ?case
  proof (cases "i < count")
    case False
    with "1.prems" show ?thesis
      by (simp add: AllocateNodes_loop.simps)
  next
    case True
    obtain r s1 where step: "allocate ntype s = (r, s1)"
      by (cases "allocate ntype s")
    show ?thesis
    proof (cases r)
      case (Inl err)
      with True step "1.prems"
      have "AllocateNodes_loop allocate ntype count (i + 1) list s1 = (list', s')"
        by (simp add: AllocateNodes_loop.simps [of allocate ntype count i])
      from "1.IH"(1) [OF True step [symmetric] Inl this] True show ?thesis
        by simp
    next
      case (Inr info)
      with True step "1.prems"
      have "AllocateNodes_loop allocate ntype count (i + 1) (list @ [info]) s1 = (list', s')"
        by (simp add: AllocateNodes_loop.simps [of allocate ntype count i])
      from "1.IH"(2) [OF True step [symmetric] Inr this] True show ?thesis
        by simp
    qed
  qed
qed

lemma allocateCalls_length: "length (fst (allocateCalls allocate ntype n s)) = n"
proof (induction n arbitrary: s)
  case 0
  show ?case by simp
next
  case (Suc n)
  obtain res s1 where call: "allocate ntype s = (res, s1)"
    by (cases "allocate ntype s")
  obtain outcomes s2 where calls: "allocateCalls allocate ntype n s1 = (outcomes, s2)"
    by (cases "allocateCalls allocate ntype n s1")
  from Suc.IH [of s1] calls have "length outcomes = n"
    by simp
  with call calls show ?case
    by simp
qed

lemma allocated_length: "length (allocated outcomes) \<le> length outcomes"
  by (induction outcomes rule: allocated.induct) simp_all

lemma AllocateNodes_loop_calls:
  "nat (count - i) = n \<Longrightarrow>
   AllocateNodes_loop allocate ntype count i list s =
     (list @ allocated (fst (allocateCalls allocate ntype n s)),
      snd (allocateCalls allocate ntype n s))"
proof (induction n arbitrary: i list s)
  case 0
  then have "\<not> i < count" by simp
  then show ?case
    by (simp add: AllocateNodes_loop.simps [of allocate ntype count i])
next
  case (Suc n)
  then have lt: "i < count" and rest: "nat (count - (i + 1)) = n"
    by simp_all
  obtain res s1 where call: "allocate ntype s = (res, s1)"
    by (cases "allocate ntype s")
  obtain outcomes s2 where calls: "allocateCalls allocate ntype n s1 = (outcomes, s2)"
    by (cases "allocateCalls allocate ntype n s1")
  show ?case
  proof (cases res)
    case (Inl err)
    with lt call calls Suc.IH [OF rest, of list s1] show ?thesis
      by (simp add: AllocateNodes_loop.simps [of allocate ntype count i])
  next
    case (Inr info)
    with lt call calls Suc.IH [OF rest, of "list @ [info]" s1] show ?thesis
      by (simp add: AllocateNodes_loop.simps [of allocate ntype count i])
  qed
qed

text \<open>
  C10. \<open>AllocateNodes\<close> returns the empty list and no error when \<open>count \<le> 0\<close> or
  \<open>count > 10\<close> (and allocates nothing: the registry state is as before). For a count
  from 1 to 10 it calls \<open>node.Allocate\<close> exactly \<open>count\<close> times, whatever the calls
  answer, and returns no error and the records of the calls that succeeded, in order: a
  failed allocation is skipped and the loop goes on. So it returns at most \<open>count\<close>
  records.
\<close>

theorem AllocateNodes_bounded:
  "(count \<le> 0 \<or> 10 < count \<longrightarrow> AllocateNodes allocate ntype count s = (Inr [], s)) \<and>
   (1 \<le> count \<and> count \<le> 10 \<longrightarrow>
      AllocateNodes allocate ntype count s =
        (Inr (allocated (fst (allocateCalls allocate ntype (nat count) s))),
         snd (allocateCalls allocate ntype (nat count) s)) \<and>
      length (fst (allocateCalls allocate ntype (nat count) s)) = nat count \<and>
      int (length (allocated (fst (allocateCalls allocate ntype (nat count) s)))) \<le> count)"
proof (intro conjI impI)
  assume "count \<le> 0 \<or> 10 < count"
  then show "AllocateNodes allocate ntype count s = (Inr [], s)"
    by (auto simp: AllocateNodes_def)
next
  assume range: "1 \<le> count \<and> count \<le> 10"
  have "AllocateNodes_loop allocate ntype count 0 [] s =
      ([] @ allocated (fst (allocateCalls allocate ntype (nat count) s)),
       snd (allocateCalls allocate ntype (nat count) s))"
    by (rule AllocateNodes_loop_calls) simp
  with range show "AllocateNodes allocate ntype count s =
        (Inr (allocated (fst (allocateCalls allocate ntype (nat count) s))),
         snd (allocateCalls allocate ntype (nat count) s))"
    by (simp add: AllocateNodes_def)
next
  show "length (fst (allocateCalls allocate ntype (nat count) s)) = nat count"
    by (rule allocateCalls_length)
next
  assume range: "1 \<le> count \<and> count \<le> 10"
  have "length (allocated (fst (allocateCalls allocate ntype (nat count) s))) \<le> nat count"
    using allocated_length [of "fst (allocateCalls allocate ntype (nat count) s)"]
    by (simp add: allocateCalls_length)
  with range show "int (length (allocated (fst (allocateCalls allocate ntype (nat count) s)))) \<le> count"
    by linarith
qed

theorem AllocateNodes_bounded_witness:
  "AllocateNodes flakyAllocate NodeEdge 11 0 = (Inr [], 0) \<and>
   AllocateNodes flakyAllocate NodeEdge 0 0 = (Inr [], 0) \<and>
   (1::int) \<le> 3 \<and> (3::int) \<le> 10 \<and>
   allocateCalls flakyAllocate NodeEdge 3 0 =
     ([Inr 0, Inl (StoreError ''duplicate entry''), Inr 2], 3) \<and>
   AllocateNodes flakyAllocate NodeEdge 3 0 = (Inr [0, 2], 3)"
proof -
  have calls: "allocateCalls flakyAllocate NodeEdge (nat 3) 0 =
      ([Inr 0, Inl (StoreError ''duplicate entry''), Inr 2], 3)"
    by (simp add: eval_nat_numeral flakyAllocate_def)
  from AllocateNodes_bounded [of 3 flakyAllocate NodeEdge 0]
  have "AllocateNodes flakyAllocate NodeEdge 3 0 = (Inr [0, 2], 3)"
    unfolding calls by simp
  moreover from AllocateNodes_bounded [of 11 flakyAllocate NodeEdge 0]
  have "AllocateNodes flakyAllocate NodeEdge 11 0 = (Inr [], 0)"
    by simp
  moreover from AllocateNodes_bounded [of 0 flakyAllocate NodeEdge 0]
  have "AllocateNodes flakyAllocate NodeEdge 0 0 = (Inr [], 0)"
    by simp
  ultimately show ?thesis
    using calls by simp
qed

section \<open>Properties of the persistent store\<close>

lemma sqlUpdate_length: "length (sqlUpdate wh st rows) = length rows"
  by (simp add: sqlUpdate_def)

lemma sqlUpdate_nth:
  "i < length rows \<Longrightarrow> sqlUpdate wh st rows ! i = (if wh (rows ! i) then st (rows ! i) else rows ! i)"
  by (simp add: sqlUpdate_def)

lemma sqlUpdate_set:
  "r \<in> set (sqlUpdate wh st rows) \<Longrightarrow> \<exists>row \<in> set rows. r = (if wh row then st row else row)"
  by (auto simp: sqlUpdate_def)

lemma SetAllNodeOffline_reachable:
  "sqlFault sd = None \<Longrightarrow>
   SetAllNodeOffline S sd =
     Inr (sd\<lparr>node := sqlUpdate (\<lambda>row. server_name row = S) (\<lambda>row. row\<lparr>is_online := 0\<rparr>) (node sd)\<rparr>)"
  by (simp add: SetAllNodeOffline_def)


text \<open>
  C7. \<open>SetAllNodeOffline\<close> for server name \<open>S\<close> on a reachable database succeeds; it
  keeps the rows of the node table in place, leaves every row of another server name as it
  was, changes nothing but \<open>is_online\<close> in a row of \<open>S\<close>, and afterwards every row of
  \<open>S\<close> has \<open>is_online = 0\<close>.
\<close>

theorem SetAllNodeOffline_frame:
  assumes "sqlFault sd = None"
  shows "\<exists>sd'. SetAllNodeOffline S sd = Inr sd' \<and>
           sqlFault sd' = None \<and>
           length (node sd') = length (node sd) \<and>
           (\<forall>i < length (node sd).
              (server_name (node sd ! i) = S \<longrightarrow> node sd' ! i = (node sd ! i)\<lparr>is_online := 0\<rparr>) \<and>
              (server_name (node sd ! i) \<noteq> S \<longrightarrow> node sd' ! i = node sd ! i)) \<and>
           (\<forall>row \<in> set (node sd'). server_name row = S \<longrightarrow> is_online row = 0)"
proof -
  define rows' where
    "rows' = sqlUpdate (\<lambda>row. server_name row = S) (\<lambda>row. row\<lparr>is_online := 0\<rparr>) (node sd)"
  define sd' where "sd' = sd\<lparr>node := rows'\<rparr>"
  have run: "SetAllNodeOffline S sd = Inr sd'"
    unfolding sd'_def rows'_def using assms by (rule SetAllNodeOffline_reachable)
  have sel: "node sd' = rows'" "sqlFault sd' = sqlFault sd"
    by (simp_all add: sd'_def)
  have len: "length rows' = length (node sd)"
    by (simp add: rows'_def sqlUpdate_length)
  have rows: "(server_name (node sd ! i) = S \<longrightarrow> rows' ! i = (node sd ! i)\<lparr>is_online := 0\<rparr>) \<and>
              (server_name (node sd ! i) \<noteq> S \<longrightarrow> rows' ! i = node sd ! i)"
    if "i < length (node sd)" for i
    using that by (simp add: rows'_def sqlUpdate_nth)
  have off: "is_online r = 0" if "r \<in> set rows'" "server_name r = S" for r
  proof -
    from that(1) obtain row where
      r: "r = (if server_name row = S then row\<lparr>is_online := 0\<rparr> else row)"
      unfolding rows'_def by (blast dest: sqlUpdate_set)
    show ?thesis
    proof (cases "server_name row = S")
      case True
      with r show ?thesis by simp
    next
      case False
      with r that(2) show ?thesis by simp
    qed
  qed
  from run assms sel len rows off show ?thesis
    by (intro exI [of _ sd']) simp
qed


theorem SetAllNodeOffline_frame_witness:
  "sqlFault \<lparr>node = exampleNodes, validate_result = [], device_blocks = [], sqlFault = None\<rparr> = None \<and>
   (\<exists>sd'. SetAllNodeOffline ''s1'' \<lparr>node = exampleNodes, validate_result = [], device_blocks = [], sqlFault = None\<rparr> = Inr sd' \<and>
      length (node sd') = 3 \<and>
      is_online (node sd' ! 0) = 0 \<and>
      node sd' ! 1 = exampleNodes ! 1 \<and>
      is_online (node sd' ! 2) = 0)"
proof -
  define sd where "sd = \<lparr>node = exampleNodes, validate_result = [], device_blocks = [], sqlFault = None\<rparr>"
  have reachable: "sqlFault sd = None"
    by (simp add: sd_def)
  have rows0: "node sd = exampleNodes"
    by (simp add: sd_def)
  have n: "length exampleNodes = 3"
    by (simp add: exampleNodes_def)
  have names: "server_name (exampleNodes ! 0) = ''s1''"
    "server_name (exampleNodes ! 1) \<noteq> ''s1''"
    "server_name (exampleNodes ! 2) = ''s1''"
    by (simp_all add: exampleNodes_def)
  from SetAllNodeOffline_frame [OF reachable, of "''s1''"]
  obtain sd' where run: "SetAllNodeOffline ''s1'' sd = Inr sd'"
    and len: "length (node sd') = length (node sd)"
    and rows: "\<forall>i < length (node sd).
          (server_name (node sd ! i) = ''s1'' \<longrightarrow> node sd' ! i = (node sd ! i)\<lparr>is_online := 0\<rparr>) \<and>
          (server_name (node sd ! i) \<noteq> ''s1'' \<longrightarrow> node sd' ! i = node sd ! i)"
    by blast
  have r0: "node sd' ! 0 = (exampleNodes ! 0)\<lparr>is_online := 0\<rparr>"
    using rows [rule_format, of 0] names(1) by (simp add: rows0 n)
  have r1: "node sd' ! 1 = exampleNodes ! 1"
    using rows [rule_format, of 1] names(2) by (simp add: rows0 n)
  have r2: "node sd' ! 2 = (exampleNodes ! 2)\<lparr>is_online := 0\<rparr>"
    using rows [rule_format, of 2] names(3) by (simp add: rows0 n)
  have "length (node sd') = 3"
    using len by (simp add: rows0 n)
  moreover have "is_online (node sd' ! 0) = 0"
    by (simp add: r0)
  moreover have "is_online (node sd' ! 2) = 0"
    by (simp add: r2)
  ultimately show ?thesis
    using run r1 reachable unfolding sd_def by blast
qed

lemma Replace_single_all:
  "n < 0 \<Longrightarrow> Replace s [a] [b] n = map (\<lambda>c. if c = a then b else c) s"
proof (induction s arbitrary: n)
  case Nil
  then show ?case
    by (simp add: Replace.simps [of "[]"])
next
  case (Cons c cs)
  from Cons.prems have "n \<noteq> 0" "n - 1 < 0" by simp_all
  with Cons.IH [of n] Cons.IH [of "n - 1"] Cons.prems show ?case
    by (simp add: Replace.simps [of "c # cs"])
qed

lemma Sprintf_suffix_verb:
  "CHR ''%'' \<notin> set p \<Longrightarrow> Sprintf1 (p @ ''%s'') (Some a) = Some (p @ a)"
proof (induction p)
  case Nil
  then show ?case by simp
next
  case (Cons c p)
  then show ?case by (cases p) auto
qed

lemma upper_cases:
  assumes "isUpperByte c"
  shows "c \<in> set ''ABCDEFGHIJKLMNOPQRSTUVWXYZ''"
proof -
  let ?n = "of_char c :: nat"
  from assms have "?n = 65 \<or> ?n = 66 \<or> ?n = 67 \<or> ?n = 68 \<or> ?n = 69 \<or> ?n = 70 \<or>
      ?n = 71 \<or> ?n = 72 \<or> ?n = 73 \<or> ?n = 74 \<or> ?n = 75 \<or> ?n = 76 \<or> ?n = 77 \<or>
      ?n = 78 \<or> ?n = 79 \<or> ?n = 80 \<or> ?n = 81 \<or> ?n = 82 \<or> ?n = 83 \<or> ?n = 84 \<or>
      ?n = 85 \<or> ?n = 86 \<or> ?n = 87 \<or> ?n = 88 \<or> ?n = 89 \<or> ?n = 90"
    unfolding isUpperByte_def by arith
  then show ?thesis
    by (simp add: of_char_eq_iff [where 'a = nat, symmetric])
qed

lemma capitals_upper: "list_all isUpperByte ''ABCDEFGHIJKLMNOPQRSTUVWXYZ''"
  by (simp add: isUpperByte_def)

lemma capital_is_upper:
  "c \<in> set ''ABCDEFGHIJKLMNOPQRSTUVWXYZ'' \<Longrightarrow> isUpperByte c"
  using capitals_upper unfolding list_all_iff by blast

lemma capital_lowered:
  "c \<in> set ''ABCDEFGHIJKLMNOPQRSTUVWXYZ'' \<Longrightarrow> spec_lowerChar c = char_of (of_char c + (32::nat))"
  by (auto simp: spec_lowerChar_def of_char_eq_iff [where 'a = nat, symmetric])

lemma other_unchanged:
  "c \<notin> set ''ABCDEFGHIJKLMNOPQRSTUVWXYZ'' \<Longrightarrow> spec_lowerChar c = c"
  by (simp add: spec_lowerChar_def)

lemma spec_lowerChar_toLowerByte: "spec_lowerChar c = toLowerByte c"
proof (cases "isUpperByte c")
  case True
  then show ?thesis
    by (simp add: toLowerByte_def capital_lowered [OF upper_cases])
next
  case False
  then have "c \<notin> set ''ABCDEFGHIJKLMNOPQRSTUVWXYZ''"
    using capital_is_upper by blast
  with False show ?thesis
    by (simp add: toLowerByte_def other_unchanged)
qed

lemma no_upper_unchanged: "\<not> hasUpper s \<Longrightarrow> map toLowerByte s = s"
  by (induction s) (simp_all add: hasUpper_def toLowerByte_def)

lemma ToLower_lowercased: "ToLower mapToLower s = spec_lowercased mapToLower s"
proof -
  have lowered: "map spec_lowerChar s = map toLowerByte s"
    by (simp add: spec_lowerChar_toLowerByte)
  show ?thesis
    unfolding ToLower_def spec_lowercased_def lowered
    by (simp add: no_upper_unchanged)
qed

text \<open>
  C8. For every region string, \<open>ReplaceArea\<close> computes the region lowercased with every
  \<open>-\<close> replaced by \<open>_\<close>, and the names of the block, data, block-info and cache-info
  tables are their fixed prefixes followed by that tag. (The lowercasing of a string that
  is not ASCII is the library's, on both sides.)
\<close>

theorem ReplaceArea_regionTag:
  "ReplaceArea mapToLower serverArea = spec_regionTag mapToLower serverArea \<and>
   Sprintf deviceBlockTable (ReplaceArea mapToLower serverArea) =
     Some (''device_blocks_'' @ spec_regionTag mapToLower serverArea) \<and>
   Sprintf dataInfoTable (ReplaceArea mapToLower serverArea) =
     Some (''data_info_'' @ spec_regionTag mapToLower serverArea) \<and>
   Sprintf blockInfoTable (ReplaceArea mapToLower serverArea) =
     Some (''block_info_'' @ spec_regionTag mapToLower serverArea) \<and>
   Sprintf cacheInfoTable (ReplaceArea mapToLower serverArea) =
     Some (''cache_info_'' @ spec_regionTag mapToLower serverArea)"
proof -
  have tag: "ReplaceArea mapToLower serverArea = spec_regionTag mapToLower serverArea"
    by (simp add: ReplaceArea_def spec_regionTag_def ToLower_lowercased Replace_single_all)
  have "Sprintf1 (''device_blocks_'' @ ''%s'') (Some (ReplaceArea mapToLower serverArea)) =
      Some (''device_blocks_'' @ ReplaceArea mapToLower serverArea)"
    by (rule Sprintf_suffix_verb) simp
  moreover have "Sprintf1 (''data_info_'' @ ''%s'') (Some (ReplaceArea mapToLower serverArea)) =
      Some (''data_info_'' @ ReplaceArea mapToLower serverArea)"
    by (rule Sprintf_suffix_verb) simp
  moreover have "Sprintf1 (''block_info_'' @ ''%s'') (Some (ReplaceArea mapToLower serverArea)) =
      Some (''block_info_'' @ ReplaceArea mapToLower serverArea)"
    by (rule Sprintf_suffix_verb) simp
  moreover have "Sprintf1 (''cache_info_'' @ ''%s'') (Some (ReplaceArea mapToLower serverArea)) =
      Some (''cache_info_'' @ ReplaceArea mapToLower serverArea)"
    by (rule Sprintf_suffix_verb) simp
  ultimately show ?thesis
    using tag
    by (simp only: Sprintf_def deviceBlockTable_def dataInfoTable_def blockInfoTable_def
        cacheInfoTable_def append.simps simp_thms)
qed

theorem ReplaceArea_regionTag_witness:
  "ReplaceArea exampleMapToLower ''CN-GD-Shenzhen'' = ''cn_gd_shenzhen'' \<and>
   Sprintf deviceBlockTable (ReplaceArea exampleMapToLower ''CN-GD-Shenzhen'') =
     Some ''device_blocks_cn_gd_shenzhen'' \<and>
   ReplaceArea exampleMapToLower [CHR 0xC3, CHR 0x89, CHR ''-'', CHR ''X''] =
     [CHR 0xC3, CHR 0xA9, CHR ''_'', CHR ''x'']"
proof -
  have t: "spec_regionTag exampleMapToLower ''CN-GD-Shenzhen'' = ''cn_gd_shenzhen''"
    by (simp add: spec_regionTag_def spec_lowercased_def isASCII_def spec_lowerChar_def)
  have u: "spec_regionTag exampleMapToLower [CHR 0xC3, CHR 0x89, CHR ''-'', CHR ''X''] =
      [CHR 0xC3, CHR 0xA9, CHR ''_'', CHR ''x'']"
    by (simp add: spec_regionTag_def spec_lowercased_def isASCII_def exampleMapToLower_def)
  note tag = ReplaceArea_regionTag [of exampleMapToLower "''CN-GD-Shenzhen''", unfolded t]
  have a: "ReplaceArea exampleMapToLower ''CN-GD-Shenzhen'' = ''cn_gd_shenzhen''"
    using tag by blast
  have "Sprintf deviceBlockTable (ReplaceArea exampleMapToLower ''CN-GD-Shenzhen'') =
      Some (''device_blocks_'' @ ''cn_gd_shenzhen'')"
    using tag by blast
  then have b: "Sprintf deviceBlockTable (ReplaceArea exampleMapToLower ''CN-GD-Shenzhen'') =
      Some ''device_blocks_cn_gd_shenzhen''"
    by simp
  note tag' = ReplaceArea_regionTag [of exampleMapToLower
      "[CHR 0xC3, CHR 0x89, CHR ''-'', CHR ''X'']", unfolded u]
  have c: "ReplaceArea exampleMapToLower [CHR 0xC3, CHR 0x89, CHR ''-'', CHR ''X''] =
      [CHR 0xC3, CHR 0xA9, CHR ''_'', CHR ''x'']"
    using tag' by blast
  from a b c show ?thesis
    by blast
qed

section \<open>Properties of result collection\<close>

lemma handleValidateResult_deferred_sql:
  "sql (handleValidateResult_deferred deviceID w) = sql w"
  by (simp add: handleValidateResult_deferred_def Let_def split: sum.splits)

lemma UpdateFailValidateResult_rows:
  "sqlFault sd = None \<Longrightarrow>
   UpdateFailValidateResult now roundId deviceID msg status sd =
     Inr (sd\<lparr>validate_result :=
            sqlUpdate (\<lambda>row. vr_DeviceID row = deviceID \<and> vr_RoundID row = roundId)
              (\<lambda>row. row\<lparr>vr_Msg := msg, vr_Status := status, vr_EndTime := now\<rparr>)
              (validate_result sd)\<rparr>)"
  by (simp add: UpdateFailValidateResult_def UpdateFailValidateResultInfo_def Let_def
      sameResultKey_def [abs_def] setFail_def [abs_def])

lemma UpdateFailValidateResult_fault:
  "sqlFault sd = Some m \<Longrightarrow>
   UpdateFailValidateResult now roundId deviceID msg status sd = Inl (StoreError m)"
  by (simp add: UpdateFailValidateResult_def UpdateFailValidateResultInfo_def Let_def)

lemma handleValidateResult_cancel_body:
  "IsCancel validateResults \<Longrightarrow>
   handleValidateResult_body NewSource h now validateResults w =
     persist (UpdateFailValidateResult now (RoundID validateResults) (DeviceID validateResults)
                errMsgCancel ValidateStatusCancel) w"
  by (simp add: handleValidateResult_body_def)


lemma persist_UpdateFail_reachable:
  "sqlFault (sql w) = None \<Longrightarrow>
   persist (UpdateFailValidateResult now roundId deviceID msg status) w =
     (None, w\<lparr>sql := (sql w)\<lparr>validate_result :=
            sqlUpdate (\<lambda>row. vr_DeviceID row = deviceID \<and> vr_RoundID row = roundId)
              (\<lambda>row. row\<lparr>vr_Msg := msg, vr_Status := status, vr_EndTime := now\<rparr>)
              (validate_result (sql w))\<rparr>\<rparr>)"
  by (simp add: persist_def UpdateFailValidateResult_rows)

lemma persist_UpdateFail_fault:
  "sqlFault (sql w) = Some m \<Longrightarrow>
   persist (UpdateFailValidateResult now roundId deviceID msg status) w = (Some (StoreError m), w)"
  by (simp add: persist_def UpdateFailValidateResult_fault)

text \<open>
  C4. A result whose round id is not the engine's current round id is rejected with the
  round-mismatch error and nothing else happens: the world after is the world before,
  so no validation row is inserted or updated, the device stays in the verifying set
  and the validate state is as it was.
\<close>

theorem handleValidateResult_round_mismatch:
  assumes "RoundID validateResults \<noteq> curRoundId (v w)"
  shows "\<exists>w'. handleValidateResult NewSource h now validateResults w = (Some RoundMismatch, w') \<and>
           w' = w \<and>
           validate_result (sql w') = validate_result (sql w) \<and>
           verifying (cache w') = verifying (cache w) \<and>
           validateState (v w') = validateState (v w)"
  using assms by (simp add: handleValidateResult_def)

theorem handleValidateResult_round_mismatch_witness:
  "RoundID (exampleResults\<lparr>RoundID := 6\<rparr>) \<noteq> curRoundId (v exampleWorld) \<and>
   handleValidateResult (\<lambda>seed. [4]) plainHash 200 (exampleResults\<lparr>RoundID := 6\<rparr>) exampleWorld =
     (Some RoundMismatch, exampleWorld)"
proof -
  have differ: "RoundID (exampleResults\<lparr>RoundID := 6\<rparr>) \<noteq> curRoundId (v exampleWorld)"
    by (simp add: exampleWorld_def exampleEngine_def)
  from handleValidateResult_round_mismatch [OF differ, of "\<lambda>seed. [4]" plainHash 200] differ
  show ?thesis
    by blast
qed


lemma handleValidateResult_current_round:
  "RoundID validateResults = curRoundId (v w) \<Longrightarrow>
   handleValidateResult_body NewSource h now validateResults w = (err, w1) \<Longrightarrow>
   handleValidateResult NewSource h now validateResults w =
     (err, handleValidateResult_deferred (DeviceID validateResults) w1)"
  by (simp add: handleValidateResult_def)

text \<open>
  C5. A result of the current round with \<open>is_cancel\<close> set, whatever its other fields:
  with the persistent store reachable the call returns no error, and the validation
  rows of the result's round and device get status \<open>cancelled\<close>, the cancellation
  message and the end time, and no other row changes; with the store failing the call
  returns the store's error and no row changes. In neither case is \<open>fail\<close> recorded.
\<close>

theorem handleValidateResult_cancel:
  assumes cancel: "IsCancel validateResults"
    and round: "RoundID validateResults = curRoundId (v w)"
  shows "(sqlFault (sql w) = None \<longrightarrow>
           (\<exists>w'. handleValidateResult NewSource h now validateResults w = (None, w') \<and>
              length (validate_result (sql w')) = length (validate_result (sql w)) \<and>
              (\<forall>i < length (validate_result (sql w)).
                 validate_result (sql w') ! i =
                   (if vr_DeviceID (validate_result (sql w) ! i) = DeviceID validateResults \<and>
                       vr_RoundID (validate_result (sql w) ! i) = RoundID validateResults
                    then (validate_result (sql w) ! i)
                           \<lparr>vr_Msg := errMsgCancel, vr_Status := ValidateStatusCancel, vr_EndTime := now\<rparr>
                    else validate_result (sql w) ! i)))) \<and>
         (\<forall>m. sqlFault (sql w) = Some m \<longrightarrow>
           (\<exists>w'. handleValidateResult NewSource h now validateResults w = (Some (StoreError m), w') \<and>
              validate_result (sql w') = validate_result (sql w)))"
proof (intro conjI impI allI)
  assume reachable: "sqlFault (sql w) = None"
  define rows' where
    "rows' = sqlUpdate (\<lambda>row. vr_DeviceID row = DeviceID validateResults \<and>
                              vr_RoundID row = RoundID validateResults)
               (\<lambda>row. row\<lparr>vr_Msg := errMsgCancel, vr_Status := ValidateStatusCancel, vr_EndTime := now\<rparr>)
               (validate_result (sql w))"
  define w1 where "w1 = w\<lparr>sql := (sql w)\<lparr>validate_result := rows'\<rparr>\<rparr>"
  define w' where "w' = handleValidateResult_deferred (DeviceID validateResults) w1"
  have "handleValidateResult_body NewSource h now validateResults w = (None, w1)"
    unfolding w1_def rows'_def
    by (simp add: handleValidateResult_cancel_body [OF cancel] persist_UpdateFail_reachable [OF reachable])
  then have run: "handleValidateResult NewSource h now validateResults w = (None, w')"
    unfolding w'_def by (rule handleValidateResult_current_round [OF round])
  have rows: "validate_result (sql w') = rows'"
    by (simp add: w'_def w1_def handleValidateResult_deferred_sql)
  have "length rows' = length (validate_result (sql w))"
    by (simp add: rows'_def sqlUpdate_length)
  moreover have "\<forall>i < length (validate_result (sql w)).
      rows' ! i =
        (if vr_DeviceID (validate_result (sql w) ! i) = DeviceID validateResults \<and>
            vr_RoundID (validate_result (sql w) ! i) = RoundID validateResults
         then (validate_result (sql w) ! i)
                \<lparr>vr_Msg := errMsgCancel, vr_Status := ValidateStatusCancel, vr_EndTime := now\<rparr>
         else validate_result (sql w) ! i)"
    by (simp add: rows'_def sqlUpdate_nth)
  ultimately show "\<exists>w'. handleValidateResult NewSource h now validateResults w = (None, w') \<and>
      length (validate_result (sql w')) = length (validate_result (sql w)) \<and>
      (\<forall>i < length (validate_result (sql w)).
         validate_result (sql w') ! i =
           (if vr_DeviceID (validate_result (sql w) ! i) = DeviceID validateResults \<and>
               vr_RoundID (validate_result (sql w) ! i) = RoundID validateResults
            then (validate_result (sql w) ! i)
                   \<lparr>vr_Msg := errMsgCancel, vr_Status := ValidateStatusCancel, vr_EndTime := now\<rparr>
            else validate_result (sql w) ! i))"
    using run unfolding rows [symmetric] by blast
next
  fix m
  assume fault: "sqlFault (sql w) = Some m"
  define w' where "w' = handleValidateResult_deferred (DeviceID validateResults) w"
  have "handleValidateResult_body NewSource h now validateResults w = (Some (StoreError m), w)"
    by (simp add: handleValidateResult_cancel_body [OF cancel] persist_UpdateFail_fault [OF fault])
  then have "handleValidateResult NewSource h now validateResults w = (Some (StoreError m), w')"
    unfolding w'_def by (rule handleValidateResult_current_round [OF round])
  moreover have "validate_result (sql w') = validate_result (sql w)"
    by (simp add: w'_def handleValidateResult_deferred_sql)
  ultimately show "\<exists>w'. handleValidateResult NewSource h now validateResults w = (Some (StoreError m), w') \<and>
      validate_result (sql w') = validate_result (sql w)"
    by blast
qed


theorem handleValidateResult_cancel_witness:
  "IsCancel (exampleResults\<lparr>IsCancel := True, IsTimeout := True\<rparr>) \<and>
   RoundID (exampleResults\<lparr>IsCancel := True, IsTimeout := True\<rparr>) = curRoundId (v exampleWorld) \<and>
   sqlFault (sql exampleWorld) = None \<and>
   (\<exists>w'. handleValidateResult (\<lambda>seed. [4]) plainHash 200
            (exampleResults\<lparr>IsCancel := True, IsTimeout := True\<rparr>) exampleWorld = (None, w') \<and>
      length (validate_result (sql w')) = 1 \<and>
      vr_Status (validate_result (sql w') ! 0) = ValidateStatusCancel \<and>
      vr_Msg (validate_result (sql w') ! 0) = errMsgCancel)"
proof -
  define res where "res = exampleResults\<lparr>IsCancel := True, IsTimeout := True\<rparr>"
  have cancel: "IsCancel res"
    by (simp add: res_def)
  have round: "RoundID res = curRoundId (v exampleWorld)"
    by (simp add: res_def exampleResults_def exampleWorld_def exampleEngine_def)
  have reachable: "sqlFault (sql exampleWorld) = None"
    by (simp add: exampleWorld_def exampleSql_def)
  have rows: "validate_result (sql exampleWorld) = [exampleRow]"
    by (simp add: exampleWorld_def exampleSql_def)
  have key: "vr_DeviceID exampleRow = DeviceID res \<and> vr_RoundID exampleRow = RoundID res"
    by (simp add: res_def exampleResults_def exampleRow_def)
  from handleValidateResult_cancel [OF cancel round, of "\<lambda>seed. [4]" plainHash 200] reachable
  obtain w' where run: "handleValidateResult (\<lambda>seed. [4]) plainHash 200 res exampleWorld = (None, w')"
    and len: "length (validate_result (sql w')) = length (validate_result (sql exampleWorld))"
    and upd: "\<forall>i < length (validate_result (sql exampleWorld)).
         validate_result (sql w') ! i =
           (if vr_DeviceID (validate_result (sql exampleWorld) ! i) = DeviceID res \<and>
               vr_RoundID (validate_result (sql exampleWorld) ! i) = RoundID res
            then (validate_result (sql exampleWorld) ! i)
                   \<lparr>vr_Msg := errMsgCancel, vr_Status := ValidateStatusCancel, vr_EndTime := 200\<rparr>
            else validate_result (sql exampleWorld) ! i)"
    by blast
  from upd [rule_format, of 0] key
  have row: "validate_result (sql w') ! 0 =
      exampleRow\<lparr>vr_Msg := errMsgCancel, vr_Status := ValidateStatusCancel, vr_EndTime := 200\<rparr>"
    by (simp add: rows)
  have "length (validate_result (sql w')) = 1"
    using len by (simp add: rows)
  moreover have "vr_Status (validate_result (sql w') ! 0) = ValidateStatusCancel"
    and "vr_Msg (validate_result (sql w') ! 0) = errMsgCancel"
    by (simp_all add: row)
  ultimately show ?thesis
    using run cancel round reachable unfolding res_def by blast
qed

section \<open>Properties of the scoring loop\<close>

lemma scoreLoop_done:
  "\<not> index < randomCount \<Longrightarrow> scoreLoop h cacheInfos cids randomCount maxFid r index = Matched"
  by (simp add: scoreLoop.simps)

lemma scoreLoop_step:
  assumes "index < randomCount" "0 \<le> index" "index < int (length cids)"
    and "getRandNum maxFid r = (x, r')"
  shows "scoreLoop h cacheInfos cids randomCount maxFid r index =
     (if mapIndex cacheInfos (x + 1) = [] then
        scoreLoop h cacheInfos cids randomCount maxFid r' (index + 1)
      else if \<not> compareCid h (mapIndex cacheInfos (x + 1)) (cids ! nat index) then
        Mismatch (''validate fail; resultCid:'' @ cids ! nat index @ '',cid_db:'' @
                  mapIndex cacheInfos (x + 1) @ '',fid:'' @ showInt (x + 1) @
                  '',index:'' @ showInt index)
      else scoreLoop h cacheInfos cids randomCount maxFid r' (index + 1))"
  using assms by (simp add: scoreLoop.simps [of h cacheInfos cids randomCount maxFid r index] Let_def)

lemma scoreLoop_out_of_range:
  assumes "index < randomCount" "int (length cids) \<le> index"
  shows "scoreLoop h cacheInfos cids randomCount maxFid r index = OutOfRange"
  using assms
  by (simp add: scoreLoop.simps [of h cacheInfos cids randomCount maxFid r index] Let_def
      split: prod.splits)


lemma scoreLoop_in_range:
  "nat (randomCount - index) = n \<Longrightarrow> 0 \<le> index \<Longrightarrow> randomCount \<le> int (length cids) \<Longrightarrow>
   scoreLoop h cacheInfos cids randomCount maxFid r index \<noteq> OutOfRange"
proof (induction n arbitrary: index r)
  case 0
  then have "\<not> index < randomCount" by simp
  then show ?case by (simp add: scoreLoop_done)
next
  case (Suc n)
  then have lt: "index < randomCount" and inr: "index < int (length cids)"
    by simp_all
  obtain x r' where draw: "getRandNum maxFid r = (x, r')"
    by (cases "getRandNum maxFid r")
  from Suc.prems have "nat (randomCount - (index + 1)) = n" "0 \<le> index + 1"
    by simp_all
  from Suc.IH [OF this Suc.prems(3), of r']
  have next_ok: "scoreLoop h cacheInfos cids randomCount maxFid r' (index + 1) \<noteq> OutOfRange" .
  show ?case
    unfolding scoreLoop_step [OF lt Suc.prems(2) inr draw]
    using next_ok by simp
qed

lemma scoreLoop_all_skipped:
  "nat (randomCount - index) = n \<Longrightarrow> 0 \<le> index \<Longrightarrow> randomCount \<le> int (length cids) \<Longrightarrow>
   list_all (\<lambda>fid. mapIndex cacheInfos fid = []) (drawnFids maxFid r n) \<Longrightarrow>
   scoreLoop h cacheInfos cids randomCount maxFid r index = Matched"
proof (induction n arbitrary: index r)
  case 0
  then have "\<not> index < randomCount" by simp
  then show ?case by (simp add: scoreLoop_done)
next
  case (Suc n)
  then have lt: "index < randomCount" and inr: "index < int (length cids)"
    by simp_all
  obtain x r' where draw: "getRandNum maxFid r = (x, r')"
    by (cases "getRandNum maxFid r")
  from Suc.prems(4) draw have skip: "mapIndex cacheInfos (x + 1) = []"
    and rest: "list_all (\<lambda>fid. mapIndex cacheInfos fid = []) (drawnFids maxFid r' n)"
    by simp_all
  from Suc.prems have "nat (randomCount - (index + 1)) = n" "0 \<le> index + 1"
    by simp_all
  from Suc.IH [OF this Suc.prems(3) rest]
  have "scoreLoop h cacheInfos cids randomCount maxFid r' (index + 1) = Matched" .
  then show ?case
    unfolding scoreLoop_step [OF lt Suc.prems(2) inr draw]
    using skip by simp
qed

lemma scoreLoop_short_cids:
  "nat (int (length cids) - index) = n \<Longrightarrow> 0 \<le> index \<Longrightarrow> index \<le> int (length cids) \<Longrightarrow>
   int (length cids) < randomCount \<Longrightarrow>
   scoreLoop h cacheInfos cids randomCount maxFid r index \<noteq> Matched"
proof (induction n arbitrary: index r)
  case 0
  then have "int (length cids) \<le> index" "index < randomCount" by simp_all
  then show ?case by (simp add: scoreLoop_out_of_range)
next
  case (Suc n)
  then have lt: "index < randomCount" and inr: "index < int (length cids)"
    by simp_all
  obtain x r' where draw: "getRandNum maxFid r = (x, r')"
    by (cases "getRandNum maxFid r")
  from Suc.prems have "nat (int (length cids) - (index + 1)) = n" "0 \<le> index + 1"
    "index + 1 \<le> int (length cids)"
    by simp_all
  from Suc.IH [OF this Suc.prems(4), of r']
  have "scoreLoop h cacheInfos cids randomCount maxFid r' (index + 1) \<noteq> Matched" .
  then show ?case
    unfolding scoreLoop_step [OF lt Suc.prems(2) inr draw]
    by simp
qed

lemma scoreLoop_runs_off:
  "nat (int (length cids) - index) = n \<Longrightarrow> 0 \<le> index \<Longrightarrow> index \<le> int (length cids) \<Longrightarrow>
   int (length cids) < randomCount \<Longrightarrow>
   list_all (passes h cacheInfos) (zip (drawnFids maxFid r n) (drop (nat index) cids)) \<Longrightarrow>
   scoreLoop h cacheInfos cids randomCount maxFid r index = OutOfRange"
proof (induction n arbitrary: index r)
  case 0
  then have "int (length cids) \<le> index" "index < randomCount" by simp_all
  then show ?case by (simp add: scoreLoop_out_of_range)
next
  case (Suc n)
  then have lt: "index < randomCount" and inr: "index < int (length cids)"
    by simp_all
  obtain x r' where draw: "getRandNum maxFid r = (x, r')"
    by (cases "getRandNum maxFid r")
  from inr Suc.prems(2) have "nat index < length cids"
    by simp
  then have split: "drop (nat index) cids = cids ! nat index # drop (nat (index + 1)) cids"
    using Suc.prems(2) by (simp add: Cons_nth_drop_Suc nat_add_distrib)
  from Suc.prems(5) draw split
  have here: "passes h cacheInfos (x + 1, cids ! nat index)"
    and rest: "list_all (passes h cacheInfos) (zip (drawnFids maxFid r' n) (drop (nat (index + 1)) cids))"
    by simp_all
  from Suc.prems have "nat (int (length cids) - (index + 1)) = n" "0 \<le> index + 1"
    "index + 1 \<le> int (length cids)"
    by simp_all
  from Suc.IH [OF this Suc.prems(4) rest]
  have "scoreLoop h cacheInfos cids randomCount maxFid r' (index + 1) = OutOfRange" .
  then show ?case
    unfolding scoreLoop_step [OF lt Suc.prems(2) inr draw]
    using here by (auto simp: passes_def)
qed


lemma UpdateSuccessValidateResult_rows:
  "sqlFault sd = None \<Longrightarrow>
   UpdateSuccessValidateResult now validateResults sd =
     Inr (sd\<lparr>validate_result :=
            sqlUpdate (\<lambda>row. vr_DeviceID row = DeviceID validateResults \<and>
                             vr_RoundID row = RoundID validateResults)
              (\<lambda>row. row\<lparr>vr_BlockNumber := int (length (Cids validateResults)), vr_Msg := ''ok'',
                         vr_Status := ValidateStatusSuccess,
                         vr_Bandwidth := Bandwidth validateResults,
                         vr_Duration := CostTime validateResults, vr_EndTime := now\<rparr>)
              (validate_result sd)\<rparr>)"
  by (simp add: UpdateSuccessValidateResult_def UpdateSuccessValidateResultInfo_def Let_def
      sameResultKey_def [abs_def] setSuccess_def [abs_def])

lemma persist_UpdateSuccess_reachable:
  "sqlFault (sql w) = None \<Longrightarrow>
   persist (UpdateSuccessValidateResult now validateResults) w =
     (None, w\<lparr>sql := (sql w)\<lparr>validate_result :=
            sqlUpdate (\<lambda>row. vr_DeviceID row = DeviceID validateResults \<and>
                             vr_RoundID row = RoundID validateResults)
              (\<lambda>row. row\<lparr>vr_BlockNumber := int (length (Cids validateResults)), vr_Msg := ''ok'',
                         vr_Status := ValidateStatusSuccess,
                         vr_Bandwidth := Bandwidth validateResults,
                         vr_Duration := CostTime validateResults, vr_EndTime := now\<rparr>)
              (validate_result (sql w))\<rparr>\<rparr>)"
  by (simp add: persist_def UpdateSuccessValidateResult_rows)

lemma GetBlocksFID_reachable:
  "GetBlocksFID deviceID sd = Inr cacheInfos \<Longrightarrow> sqlFault sd = None"
  by (simp add: GetBlocksFID_def split: option.splits)

lemma handleValidateResult_body_scoring:
  assumes "\<not> IsCancel validateResults" "\<not> IsTimeout validateResults"
    and "Cids validateResults \<noteq> []" "0 < RandomCount validateResults"
    and "GetBlocksFID (DeviceID validateResults) (sql w) = Inr cacheInfos" "cacheInfos \<noteq> []"
    and "map_of (maxFidMap (v w)) (DeviceID validateResults) = Some maxFid"
  shows "handleValidateResult_body NewSource h now validateResults w =
     (case scoreLoop h cacheInfos (Cids validateResults) (RandomCount validateResults) maxFid
             (NewSource (seed (v w))) 0 of
        OutOfRange \<Rightarrow> (Some (Panic IndexOutOfRange), w)
      | Mismatch msg \<Rightarrow>
          persist (UpdateFailValidateResult now (RoundID validateResults)
                     (DeviceID validateResults) msg ValidateStatusFail) w
      | Matched \<Rightarrow> persist (UpdateSuccessValidateResult now validateResults) w)"
  using assms by (simp add: handleValidateResult_body_def Let_def)


lemma handleValidateResult_matched:
  assumes round: "RoundID validateResults = curRoundId (v w)"
    and flags: "\<not> IsCancel validateResults" "\<not> IsTimeout validateResults"
    and sizes: "Cids validateResults \<noteq> []" "0 < RandomCount validateResults"
    and blocks: "GetBlocksFID (DeviceID validateResults) (sql w) = Inr cacheInfos" "cacheInfos \<noteq> []"
    and maxFid: "map_of (maxFidMap (v w)) (DeviceID validateResults) = Some maxFid"
    and score: "scoreLoop h cacheInfos (Cids validateResults) (RandomCount validateResults) maxFid
                  (NewSource (seed (v w))) 0 = Matched"
  shows "\<exists>w'. handleValidateResult NewSource h now validateResults w = (None, w') \<and>
           validate_result (sql w') =
             sqlUpdate (\<lambda>row. vr_DeviceID row = DeviceID validateResults \<and>
                              vr_RoundID row = RoundID validateResults)
               (\<lambda>row. row\<lparr>vr_BlockNumber := int (length (Cids validateResults)), vr_Msg := ''ok'',
                          vr_Status := ValidateStatusSuccess,
                          vr_Bandwidth := Bandwidth validateResults,
                          vr_Duration := CostTime validateResults, vr_EndTime := now\<rparr>)
               (validate_result (sql w))"
proof -
  have reachable: "sqlFault (sql w) = None"
    using blocks(1) by (rule GetBlocksFID_reachable)
  have "handleValidateResult_body NewSource h now validateResults w =
      persist (UpdateSuccessValidateResult now validateResults) w"
    by (simp add: handleValidateResult_body_scoring [OF flags sizes blocks maxFid] score)
  from handleValidateResult_current_round [OF round
      this [unfolded persist_UpdateSuccess_reachable [OF reachable]]]
  show ?thesis
    by (simp add: handleValidateResult_deferred_sql)
qed

lemma handleValidateResult_mismatch:
  assumes round: "RoundID validateResults = curRoundId (v w)"
    and flags: "\<not> IsCancel validateResults" "\<not> IsTimeout validateResults"
    and sizes: "Cids validateResults \<noteq> []" "0 < RandomCount validateResults"
    and blocks: "GetBlocksFID (DeviceID validateResults) (sql w) = Inr cacheInfos" "cacheInfos \<noteq> []"
    and maxFid: "map_of (maxFidMap (v w)) (DeviceID validateResults) = Some maxFid"
    and score: "scoreLoop h cacheInfos (Cids validateResults) (RandomCount validateResults) maxFid
                  (NewSource (seed (v w))) 0 = Mismatch msg"
  shows "\<exists>w'. handleValidateResult NewSource h now validateResults w = (None, w') \<and>
           validate_result (sql w') =
             sqlUpdate (\<lambda>row. vr_DeviceID row = DeviceID validateResults \<and>
                              vr_RoundID row = RoundID validateResults)
               (\<lambda>row. row\<lparr>vr_Msg := msg, vr_Status := ValidateStatusFail, vr_EndTime := now\<rparr>)
               (validate_result (sql w))"
proof -
  have reachable: "sqlFault (sql w) = None"
    using blocks(1) by (rule GetBlocksFID_reachable)
  have "handleValidateResult_body NewSource h now validateResults w =
      persist (UpdateFailValidateResult now (RoundID validateResults)
                 (DeviceID validateResults) msg ValidateStatusFail) w"
    by (simp add: handleValidateResult_body_scoring [OF flags sizes blocks maxFid] score)
  from handleValidateResult_current_round [OF round
      this [unfolded persist_UpdateFail_reachable [OF reachable]]]
  show ?thesis
    by (simp add: handleValidateResult_deferred_sql)
qed

lemma handleValidateResult_out_of_range:
  assumes round: "RoundID validateResults = curRoundId (v w)"
    and flags: "\<not> IsCancel validateResults" "\<not> IsTimeout validateResults"
    and sizes: "Cids validateResults \<noteq> []" "0 < RandomCount validateResults"
    and blocks: "GetBlocksFID (DeviceID validateResults) (sql w) = Inr cacheInfos" "cacheInfos \<noteq> []"
    and maxFid: "map_of (maxFidMap (v w)) (DeviceID validateResults) = Some maxFid"
    and score: "scoreLoop h cacheInfos (Cids validateResults) (RandomCount validateResults) maxFid
                  (NewSource (seed (v w))) 0 = OutOfRange"
  shows "\<exists>w'. handleValidateResult NewSource h now validateResults w =
             (Some (Panic IndexOutOfRange), w') \<and>
           validate_result (sql w') = validate_result (sql w)"
proof -
  have "handleValidateResult_body NewSource h now validateResults w =
      (Some (Panic IndexOutOfRange), w)"
    by (simp add: handleValidateResult_body_scoring [OF flags sizes blocks maxFid] score)
  from handleValidateResult_current_round [OF round this]
  show ?thesis
    by (simp add: handleValidateResult_deferred_sql)
qed

lemma example_facts:
  "RoundID exampleResults = curRoundId (v exampleWorld)"
  "\<not> IsCancel exampleResults" "\<not> IsTimeout exampleResults"
  "Cids exampleResults = [''CIDX'']" "RandomCount exampleResults = 1"
  "DeviceID exampleResults = ''e1''"
  "GetBlocksFID ''e1'' (sql exampleWorld) = Inr [(3, ''CIDA'')]"
  "map_of (maxFidMap (v exampleWorld)) ''e1'' = Some 10"
  "seed (v exampleWorld) = 42"
  "validate_result (sql exampleWorld) = [exampleRow]"
  "vr_DeviceID exampleRow = ''e1''" "vr_RoundID exampleRow = 7" "RoundID exampleResults = 7"
  "curRoundId (v exampleWorld) = 7"
  by (simp_all add: exampleResults_def exampleWorld_def exampleEngine_def exampleSql_def
      exampleRow_def GetBlocksFID_def)


text \<open>
  C1 (as the code has it). A result of the current round that reaches the scoring loop
  (not cancelled, not timed out, \<open>0 < random_count \<le> len(cids)\<close>, a non-empty fid map,
  the device's max fid known) and whose draws are all skipped, each drawn fid having no
  cid in the node's map, is recorded as \<open>success\<close> with the message \<open>ok\<close>: the rows of the
  result's round and device get the success fields and no other row changes. A skipped
  draw is not counted as a mismatch, and nothing counts the cids that were compared.
\<close>

theorem handleValidateResult_all_skipped:
  assumes round: "RoundID validateResults = curRoundId (v w)"
    and flags: "\<not> IsCancel validateResults" "\<not> IsTimeout validateResults"
    and count: "0 < RandomCount validateResults"
      "RandomCount validateResults \<le> int (length (Cids validateResults))"
    and blocks: "GetBlocksFID (DeviceID validateResults) (sql w) = Inr cacheInfos" "cacheInfos \<noteq> []"
    and maxFid: "map_of (maxFidMap (v w)) (DeviceID validateResults) = Some maxFid"
    and skipped: "list_all (\<lambda>fid. mapIndex cacheInfos fid = [])
                    (drawnFids maxFid (NewSource (seed (v w))) (nat (RandomCount validateResults)))"
  shows "\<exists>w'. handleValidateResult NewSource h now validateResults w = (None, w') \<and>
           length (validate_result (sql w')) = length (validate_result (sql w)) \<and>
           (\<forall>i < length (validate_result (sql w)).
              validate_result (sql w') ! i =
                (if vr_DeviceID (validate_result (sql w) ! i) = DeviceID validateResults \<and>
                    vr_RoundID (validate_result (sql w) ! i) = RoundID validateResults
                 then (validate_result (sql w) ! i)
                        \<lparr>vr_BlockNumber := int (length (Cids validateResults)), vr_Msg := ''ok'',
                         vr_Status := ValidateStatusSuccess,
                         vr_Bandwidth := Bandwidth validateResults,
                         vr_Duration := CostTime validateResults, vr_EndTime := now\<rparr>
                 else validate_result (sql w) ! i))"
proof -
  from count have nonempty: "Cids validateResults \<noteq> []"
    by auto
  have "scoreLoop h cacheInfos (Cids validateResults) (RandomCount validateResults) maxFid
          (NewSource (seed (v w))) 0 = Matched"
    using skipped count(2) by (intro scoreLoop_all_skipped) simp_all
  from handleValidateResult_matched [where NewSource = NewSource and h = h and now = now,
      OF round flags nonempty count(1) blocks maxFid this]
  obtain w' where run: "handleValidateResult NewSource h now validateResults w = (None, w')"
    and rows: "validate_result (sql w') =
             sqlUpdate (\<lambda>row. vr_DeviceID row = DeviceID validateResults \<and>
                              vr_RoundID row = RoundID validateResults)
               (\<lambda>row. row\<lparr>vr_BlockNumber := int (length (Cids validateResults)), vr_Msg := ''ok'',
                          vr_Status := ValidateStatusSuccess,
                          vr_Bandwidth := Bandwidth validateResults,
                          vr_Duration := CostTime validateResults, vr_EndTime := now\<rparr>)
               (validate_result (sql w))"
    by blast
  have "length (validate_result (sql w')) = length (validate_result (sql w))"
    unfolding rows by (simp add: sqlUpdate_length)
  moreover have "\<forall>i < length (validate_result (sql w)).
              validate_result (sql w') ! i =
                (if vr_DeviceID (validate_result (sql w) ! i) = DeviceID validateResults \<and>
                    vr_RoundID (validate_result (sql w) ! i) = RoundID validateResults
                 then (validate_result (sql w) ! i)
                        \<lparr>vr_BlockNumber := int (length (Cids validateResults)), vr_Msg := ''ok'',
                         vr_Status := ValidateStatusSuccess,
                         vr_Bandwidth := Bandwidth validateResults,
                         vr_Duration := CostTime validateResults, vr_EndTime := now\<rparr>
                 else validate_result (sql w) ! i)"
    unfolding rows by (simp add: sqlUpdate_nth)
  ultimately show ?thesis
    using run by blast
qed

lemma example_draw_skipped:
  "drawnFids 10 [4] (Suc 0) = [5]" "mapIndex [(3::int, ''CIDA'')] 5 = []"
  by (simp_all add: getRandNum_def Intn_def mapIndex_def)

theorem handleValidateResult_all_skipped_witness:
  "RoundID exampleResults = curRoundId (v exampleWorld) \<and>
   \<not> IsCancel exampleResults \<and> \<not> IsTimeout exampleResults \<and>
   0 < RandomCount exampleResults \<and>
   RandomCount exampleResults \<le> int (length (Cids exampleResults)) \<and>
   GetBlocksFID (DeviceID exampleResults) (sql exampleWorld) = Inr [(3, ''CIDA'')] \<and>
   map_of (maxFidMap (v exampleWorld)) (DeviceID exampleResults) = Some 10 \<and>
   list_all (\<lambda>fid. mapIndex [(3, ''CIDA'')] fid = [])
     (drawnFids 10 [4] (nat (RandomCount exampleResults))) \<and>
   (\<exists>w'. handleValidateResult (\<lambda>seed. [4]) plainHash 200 exampleResults exampleWorld = (None, w') \<and>
      vr_Status (validate_result (sql w') ! 0) = ValidateStatusSuccess \<and>
      vr_Msg (validate_result (sql w') ! 0) = ''ok'')"
proof -
  have count: "0 < RandomCount exampleResults"
    "RandomCount exampleResults \<le> int (length (Cids exampleResults))"
    by (simp_all add: example_facts)
  have blocks: "GetBlocksFID (DeviceID exampleResults) (sql exampleWorld) = Inr [(3, ''CIDA'')]"
    "[(3::int, ''CIDA'')] \<noteq> []"
    by (simp_all add: example_facts)
  have maxFid: "map_of (maxFidMap (v exampleWorld)) (DeviceID exampleResults) = Some 10"
    by (simp add: example_facts)
  have skipped: "list_all (\<lambda>fid. mapIndex [(3, ''CIDA'')] fid = [])
      (drawnFids 10 ((\<lambda>seed. [4]) (seed (v exampleWorld))) (nat (RandomCount exampleResults)))"
    by (simp add: example_facts getRandNum_def Intn_def mapIndex_def)
  from handleValidateResult_all_skipped [where NewSource = "\<lambda>seed. [4]" and h = plainHash
      and now = 200, OF example_facts(1-3) count blocks maxFid skipped]
  obtain w' where run: "handleValidateResult (\<lambda>seed. [4]) plainHash 200 exampleResults exampleWorld = (None, w')"
    and upd: "\<forall>i < length (validate_result (sql exampleWorld)).
              validate_result (sql w') ! i =
                (if vr_DeviceID (validate_result (sql exampleWorld) ! i) = DeviceID exampleResults \<and>
                    vr_RoundID (validate_result (sql exampleWorld) ! i) = RoundID exampleResults
                 then (validate_result (sql exampleWorld) ! i)
                        \<lparr>vr_BlockNumber := int (length (Cids exampleResults)), vr_Msg := ''ok'',
                         vr_Status := ValidateStatusSuccess,
                         vr_Bandwidth := Bandwidth exampleResults,
                         vr_Duration := CostTime exampleResults, vr_EndTime := 200\<rparr>
                 else validate_result (sql exampleWorld) ! i)"
    by blast
  from upd [rule_format, of 0]
  have row: "validate_result (sql w') ! 0 =
      exampleRow\<lparr>vr_BlockNumber := int (length (Cids exampleResults)), vr_Msg := ''ok'',
                 vr_Status := ValidateStatusSuccess, vr_Bandwidth := Bandwidth exampleResults,
                 vr_Duration := CostTime exampleResults, vr_EndTime := 200\<rparr>"
    by (simp add: example_facts)
  have "vr_Status (validate_result (sql w') ! 0) = ValidateStatusSuccess"
    and "vr_Msg (validate_result (sql w') ! 0) = ''ok''"
    by (simp_all add: row)
  with run have "\<exists>w'. handleValidateResult (\<lambda>seed. [4]) plainHash 200 exampleResults exampleWorld = (None, w') \<and>
      vr_Status (validate_result (sql w') ! 0) = ValidateStatusSuccess \<and>
      vr_Msg (validate_result (sql w') ! 0) = ''ok''"
    by blast
  moreover have "list_all (\<lambda>fid. mapIndex [(3, ''CIDA'')] fid = [])
     (drawnFids 10 [4] (nat (RandomCount exampleResults)))"
    using skipped by simp
  ultimately show ?thesis
    using example_facts(1-3) count blocks(1) maxFid by blast
qed


lemma example_score_skipped:
  "scoreLoop plainHash [(3, ''CIDA'')] [''CIDX''] 1 10 [4] 0 = Matched"
proof -
  have draw: "getRandNum 10 [4] = (4, [])"
    by (simp add: getRandNum_def Intn_def)
  have "scoreLoop plainHash [(3, ''CIDA'')] [''CIDX''] 1 10 [4] 0 =
      scoreLoop plainHash [(3, ''CIDA'')] [''CIDX''] 1 10 [] (0 + 1)"
    by (subst scoreLoop_step [OF _ _ _ draw]) (simp_all add: mapIndex_def)
  also have "\<dots> = Matched"
    by (simp add: scoreLoop_done)
  finally show ?thesis .
qed

text \<open>
  The run that refutes C1 as stated: one draw, fid 5, which the node's map (fid 3 only)
  does not hold; the row of the device ends as \<open>success\<close> with message \<open>ok\<close>, not as
  \<open>fail\<close> with a message about unchecked cids.
\<close>

theorem handleValidateResult_all_skipped_counterexample:
  "GetBlocksFID (DeviceID exampleResults) (sql exampleWorld) = Inr [(3, ''CIDA'')] \<and>
   map (mapIndex [(3::int, ''CIDA'')]) (drawnFids 10 [4] (nat (RandomCount exampleResults))) = [[]] \<and>
   fst (handleValidateResult (\<lambda>seed. [4]) plainHash 200 exampleResults exampleWorld) = None \<and>
   map vr_Status (validate_result (sql (snd
     (handleValidateResult (\<lambda>seed. [4]) plainHash 200 exampleResults exampleWorld)))) =
     [ValidateStatusSuccess] \<and>
   map vr_Msg (validate_result (sql (snd
     (handleValidateResult (\<lambda>seed. [4]) plainHash 200 exampleResults exampleWorld)))) =
     [''ok'']"
proof -
  have blocks: "GetBlocksFID (DeviceID exampleResults) (sql exampleWorld) = Inr [(3, ''CIDA'')]"
    "[(3::int, ''CIDA'')] \<noteq> []"
    by (simp_all add: example_facts)
  have sizes: "Cids exampleResults \<noteq> []" "0 < RandomCount exampleResults"
    by (simp_all add: example_facts)
  have maxFid: "map_of (maxFidMap (v exampleWorld)) (DeviceID exampleResults) = Some 10"
    by (simp add: example_facts)
  have score: "scoreLoop plainHash [(3, ''CIDA'')] (Cids exampleResults)
      (RandomCount exampleResults) 10 ((\<lambda>seed. [4]) (seed (v exampleWorld))) 0 = Matched"
    by (simp add: example_facts example_score_skipped)
  from handleValidateResult_matched [where NewSource = "\<lambda>seed. [4]" and h = plainHash
      and now = 200, OF example_facts(1-3) sizes blocks maxFid score]
  obtain w' where run: "handleValidateResult (\<lambda>seed. [4]) plainHash 200 exampleResults exampleWorld = (None, w')"
    and rows: "validate_result (sql w') =
        sqlUpdate (\<lambda>row. vr_DeviceID row = DeviceID exampleResults \<and>
                         vr_RoundID row = RoundID exampleResults)
          (\<lambda>row. row\<lparr>vr_BlockNumber := int (length (Cids exampleResults)), vr_Msg := ''ok'',
                     vr_Status := ValidateStatusSuccess,
                     vr_Bandwidth := Bandwidth exampleResults,
                     vr_Duration := CostTime exampleResults, vr_EndTime := 200\<rparr>)
          (validate_result (sql exampleWorld))"
    by blast
  have "map vr_Status (validate_result (sql w')) = [ValidateStatusSuccess]"
    and "map vr_Msg (validate_result (sql w')) = [''ok'']"
    unfolding rows by (simp_all add: sqlUpdate_def example_facts(6,10-13))
  moreover have "map (mapIndex [(3::int, ''CIDA'')])
      (drawnFids 10 [4] (nat (RandomCount exampleResults))) = [[]]"
    by (simp add: example_facts(5) getRandNum_def Intn_def mapIndex_def)
  ultimately show ?thesis
    using blocks(1) by (simp add: run)
qed

lemma min_pred: "Suc n = min a b \<Longrightarrow> n = min (a - Suc 0) (b - Suc 0)"
  by arith

lemma scoreLoop_firstMismatch:
  "n = min (nat (randomCount - index)) (length cids - nat index) \<Longrightarrow>
   0 \<le> index \<Longrightarrow> index \<le> int (length cids) \<Longrightarrow>
   scoreLoop h cacheInfos cids randomCount maxFid r index =
     (case firstMismatch h cacheInfos (zip (drawnFids maxFid r n) (drop (nat index) cids)) index of
        Some msg \<Rightarrow> Mismatch msg
      | None \<Rightarrow> if randomCount \<le> int (length cids) then Matched else OutOfRange)"
proof (induction n arbitrary: index r)
  case 0
  show ?case
  proof (cases "index < randomCount")
    case False
    with "0.prems" show ?thesis
      by (simp add: scoreLoop_done)
  next
    case True
    with "0.prems" have "int (length cids) \<le> index"
      by auto
    with True show ?thesis
      by (simp add: scoreLoop_out_of_range)
  qed
next
  case (Suc n)
  from Suc.prems have lt: "index < randomCount" and inr: "index < int (length cids)"
    by auto
  obtain x r' where draw: "getRandNum maxFid r = (x, r')"
    by (cases "getRandNum maxFid r")
  from inr Suc.prems(2) have "nat index < length cids"
    by simp
  then have split: "drop (nat index) cids = cids ! nat index # drop (nat (index + 1)) cids"
    using Suc.prems(2) by (simp add: Cons_nth_drop_Suc nat_add_distrib)
  have e1: "nat (randomCount - (index + 1)) = nat (randomCount - index) - Suc 0"
    by arith
  have e2: "length cids - nat (index + 1) = (length cids - nat index) - Suc 0"
    using Suc.prems(2) by arith
  have "n = min (nat (randomCount - index) - Suc 0) ((length cids - nat index) - Suc 0)"
    using Suc.prems(1) by (rule min_pred)
  then have "n = min (nat (randomCount - (index + 1))) (length cids - nat (index + 1))"
    by (simp only: e1 e2)
  moreover have "0 \<le> index + 1" "index + 1 \<le> int (length cids)"
    using Suc.prems(2) inr by simp_all
  ultimately have rest: "scoreLoop h cacheInfos cids randomCount maxFid r' (index + 1) =
     (case firstMismatch h cacheInfos
             (zip (drawnFids maxFid r' n) (drop (nat (index + 1)) cids)) (index + 1) of
        Some msg \<Rightarrow> Mismatch msg
      | None \<Rightarrow> if randomCount \<le> int (length cids) then Matched else OutOfRange)"
    by (rule Suc.IH)
  show ?case
    unfolding scoreLoop_step [OF lt Suc.prems(2) inr draw] rest
    by (simp add: draw split passes_def mismatchMsg_def)
qed

text \<open>
  C9 (as the code has it). The scoring loop reads \<open>cids[index]\<close> at every index it
  reaches, and its answer is this: over the first \<open>min(random_count, len(cids))\<close>
  iterations it returns at the first that does not pass (its draw not skipped and its
  cids different in hash), with the message of that index; if all of them pass it ends
  with all cids matched when \<open>random_count \<le> len(cids)\<close>, and otherwise the iteration at
  index \<open>len(cids)\<close> is the out-of-range access. So with \<open>random_count \<le> len(cids)\<close> it
  never indexes \<open>cids\<close> out of range, and with \<open>len(cids) < random_count\<close> it never ends
  with all cids matched.
\<close>

theorem scoreLoop_index_range:
  "scoreLoop h cacheInfos cids randomCount maxFid r 0 =
     (case firstMismatch h cacheInfos
             (zip (drawnFids maxFid r (min (nat randomCount) (length cids))) cids) 0 of
        Some msg \<Rightarrow> Mismatch msg
      | None \<Rightarrow> if randomCount \<le> int (length cids) then Matched else OutOfRange) \<and>
   (randomCount \<le> int (length cids) \<longrightarrow>
      scoreLoop h cacheInfos cids randomCount maxFid r 0 \<noteq> OutOfRange) \<and>
   (int (length cids) < randomCount \<longrightarrow>
      scoreLoop h cacheInfos cids randomCount maxFid r 0 \<noteq> Matched \<and>
      (list_all (passes h cacheInfos) (zip (drawnFids maxFid r (length cids)) cids) \<longrightarrow>
         scoreLoop h cacheInfos cids randomCount maxFid r 0 = OutOfRange))"
proof (intro conjI impI)
  have "scoreLoop h cacheInfos cids randomCount maxFid r 0 =
     (case firstMismatch h cacheInfos
             (zip (drawnFids maxFid r (min (nat randomCount) (length cids))) (drop (nat 0) cids)) 0 of
        Some msg \<Rightarrow> Mismatch msg
      | None \<Rightarrow> if randomCount \<le> int (length cids) then Matched else OutOfRange)"
    by (rule scoreLoop_firstMismatch) simp_all
  then show "scoreLoop h cacheInfos cids randomCount maxFid r 0 =
     (case firstMismatch h cacheInfos
             (zip (drawnFids maxFid r (min (nat randomCount) (length cids))) cids) 0 of
        Some msg \<Rightarrow> Mismatch msg
      | None \<Rightarrow> if randomCount \<le> int (length cids) then Matched else OutOfRange)"
    by simp
next
  assume "randomCount \<le> int (length cids)"
  then show "scoreLoop h cacheInfos cids randomCount maxFid r 0 \<noteq> OutOfRange"
    by (intro scoreLoop_in_range [where n = "nat randomCount"]) simp_all
next
  assume "int (length cids) < randomCount"
  then show "scoreLoop h cacheInfos cids randomCount maxFid r 0 \<noteq> Matched"
    by (intro scoreLoop_short_cids [where n = "length cids"]) simp_all
next
  assume "int (length cids) < randomCount"
    and "list_all (passes h cacheInfos) (zip (drawnFids maxFid r (length cids)) cids)"
  then show "scoreLoop h cacheInfos cids randomCount maxFid r 0 = OutOfRange"
    by (intro scoreLoop_runs_off [where n = "length cids"]) simp_all
qed

theorem scoreLoop_index_range_witness:
  "(1::int) \<le> int (length [''CIDX'']) \<and>
   scoreLoop plainHash [(3, ''CIDA'')] [''CIDX''] 1 10 [4] 0 \<noteq> OutOfRange \<and>
   int (length [''CIDA'']) < 2 \<and>
   list_all (passes plainHash [(3, ''CIDA'')]) (zip (drawnFids 10 [2, 4] (length [''CIDA''])) [''CIDA'']) \<and>
   scoreLoop plainHash [(3, ''CIDA'')] [''CIDA''] 2 10 [2, 4] 0 \<noteq> Matched \<and>
   scoreLoop plainHash [(3, ''CIDA'')] [''CIDA''] 2 10 [2, 4] 0 = OutOfRange \<and>
   firstMismatch plainHash [(3, ''CIDA'')]
     (zip (drawnFids 10 [2, 4] (min (nat 2) (length [''CIDX'']))) [''CIDX'']) 0 =
     Some (mismatchMsg ''CIDX'' ''CIDA'' 3 0) \<and>
   scoreLoop plainHash [(3, ''CIDA'')] [''CIDX''] 2 10 [2, 4] 0 =
     Mismatch (mismatchMsg ''CIDX'' ''CIDA'' 3 0)"
proof -
  have short: "int (length [''CIDA'']) < 2"
    by simp
  have pass: "list_all (passes plainHash [(3, ''CIDA'')])
      (zip (drawnFids 10 [2, 4] (length [''CIDA''])) [''CIDA''])"
    by (simp add: getRandNum_def Intn_def passes_def mapIndex_def compareCid_def plainHash_def)
  have fits: "(1::int) \<le> int (length [''CIDX''])"
    by simp
  have first: "firstMismatch plainHash [(3, ''CIDA'')]
      (zip (drawnFids 10 [2, 4] (min (nat 2) (length [''CIDX'']))) [''CIDX'']) 0 =
      Some (mismatchMsg ''CIDX'' ''CIDA'' 3 0)"
    by (simp add: getRandNum_def Intn_def passes_def mapIndex_def compareCid_def plainHash_def)
  from scoreLoop_index_range [where h = plainHash and cacheInfos = "[(3, ''CIDA'')]"
      and cids = "[''CIDX'']" and randomCount = 1 and maxFid = 10 and r = "[4]"] fits
  have "scoreLoop plainHash [(3, ''CIDA'')] [''CIDX''] 1 10 [4] 0 \<noteq> OutOfRange"
    by blast
  moreover from scoreLoop_index_range [where h = plainHash and cacheInfos = "[(3, ''CIDA'')]"
      and cids = "[''CIDA'']" and randomCount = 2 and maxFid = 10 and r = "[2, 4]"]
    short pass
  have "scoreLoop plainHash [(3, ''CIDA'')] [''CIDA''] 2 10 [2, 4] 0 \<noteq> Matched \<and>
      scoreLoop plainHash [(3, ''CIDA'')] [''CIDA''] 2 10 [2, 4] 0 = OutOfRange"
    by blast
  moreover from scoreLoop_index_range [where h = plainHash and cacheInfos = "[(3, ''CIDA'')]"
      and cids = "[''CIDX'']" and randomCount = 2 and maxFid = 10 and r = "[2, 4]"]
  have "scoreLoop plainHash [(3, ''CIDA'')] [''CIDX''] 2 10 [2, 4] 0 =
      Mismatch (mismatchMsg ''CIDX'' ''CIDA'' 3 0)"
    unfolding first by simp
  ultimately show ?thesis
    using short pass fits first by blast
qed

lemma showNat_digit: "n < 10 \<Longrightarrow> showNat n = [''0123456789'' ! n]"
  by (simp add: showNat.simps [of n])

lemma example_score_mismatch:
  "scoreLoop plainHash [(3, ''CIDA'')] [''CIDX''] 2 10 [2, 4] 0 =
     Mismatch ''validate fail; resultCid:CIDX,cid_db:CIDA,fid:3,index:0''"
proof -
  have draw: "getRandNum 10 [2, 4] = (2, [4])"
    by (simp add: getRandNum_def Intn_def)
  have digits: "showInt 3 = ''3''" "showInt 0 = ''0''"
    by (simp_all add: showInt_def showNat_digit)
  show ?thesis
    by (subst scoreLoop_step [OF _ _ _ draw])
      (simp_all add: mapIndex_def compareCid_def plainHash_def digits)
qed

text \<open>
  The run that refutes C9 as stated: one cid returned, two draws asked for, a non-empty
  fid map; the first iteration finds a mismatch and returns, the result is recorded as
  \<open>fail\<close> and no iteration indexes \<open>cids\<close> out of range.
\<close>

theorem scoreLoop_index_range_counterexample:
  "0 < length (Cids (exampleResults\<lparr>RandomCount := 2\<rparr>)) \<and>
   int (length (Cids (exampleResults\<lparr>RandomCount := 2\<rparr>))) < RandomCount (exampleResults\<lparr>RandomCount := 2\<rparr>) \<and>
   GetBlocksFID (DeviceID (exampleResults\<lparr>RandomCount := 2\<rparr>)) (sql exampleWorld) = Inr [(3, ''CIDA'')] \<and>
   scoreLoop plainHash [(3, ''CIDA'')] (Cids (exampleResults\<lparr>RandomCount := 2\<rparr>))
     (RandomCount (exampleResults\<lparr>RandomCount := 2\<rparr>)) 10 [2, 4] 0 =
     Mismatch ''validate fail; resultCid:CIDX,cid_db:CIDA,fid:3,index:0'' \<and>
   fst (handleValidateResult (\<lambda>seed. [2, 4]) plainHash 200
          (exampleResults\<lparr>RandomCount := 2\<rparr>) exampleWorld) = None \<and>
   map vr_Status (validate_result (sql (snd
     (handleValidateResult (\<lambda>seed. [2, 4]) plainHash 200
        (exampleResults\<lparr>RandomCount := 2\<rparr>) exampleWorld)))) = [ValidateStatusFail]"
proof -
  define res where "res = exampleResults\<lparr>RandomCount := 2\<rparr>"
  have res_facts: "RoundID res = curRoundId (v exampleWorld)" "\<not> IsCancel res" "\<not> IsTimeout res"
    "Cids res = [''CIDX'']" "RandomCount res = 2" "DeviceID res = ''e1''" "RoundID res = 7"
    by (simp_all add: res_def example_facts)
  have blocks: "GetBlocksFID (DeviceID res) (sql exampleWorld) = Inr [(3, ''CIDA'')]"
    "[(3::int, ''CIDA'')] \<noteq> []"
    by (simp_all add: res_facts example_facts)
  have sizes: "Cids res \<noteq> []" "0 < RandomCount res"
    by (simp_all add: res_facts)
  have maxFid: "map_of (maxFidMap (v exampleWorld)) (DeviceID res) = Some 10"
    by (simp add: res_facts example_facts)
  have score: "scoreLoop plainHash [(3, ''CIDA'')] (Cids res) (RandomCount res) 10
      ((\<lambda>seed. [2, 4]) (seed (v exampleWorld))) 0 =
      Mismatch ''validate fail; resultCid:CIDX,cid_db:CIDA,fid:3,index:0''"
    by (simp add: res_facts example_score_mismatch)
  from handleValidateResult_mismatch [where NewSource = "\<lambda>seed. [2, 4]" and h = plainHash
      and now = 200, OF res_facts(1-3) sizes blocks maxFid score]
  obtain w' where run: "handleValidateResult (\<lambda>seed. [2, 4]) plainHash 200 res exampleWorld = (None, w')"
    and rows: "validate_result (sql w') =
        sqlUpdate (\<lambda>row. vr_DeviceID row = DeviceID res \<and> vr_RoundID row = RoundID res)
          (\<lambda>row. row\<lparr>vr_Msg := ''validate fail; resultCid:CIDX,cid_db:CIDA,fid:3,index:0'',
                     vr_Status := ValidateStatusFail, vr_EndTime := 200\<rparr>)
          (validate_result (sql exampleWorld))"
    by blast
  have "map vr_Status (validate_result (sql w')) = [ValidateStatusFail]"
    unfolding rows by (simp add: sqlUpdate_def res_facts(6,7) example_facts(10-12))
  moreover have "scoreLoop plainHash [(3, ''CIDA'')] (Cids res) (RandomCount res) 10 [2, 4] 0 =
      Mismatch ''validate fail; resultCid:CIDX,cid_db:CIDA,fid:3,index:0''"
    using score by simp
  moreover have "0 < length (Cids res)" "int (length (Cids res)) < RandomCount res"
    by (simp_all add: res_facts)
  ultimately show ?thesis
    using blocks(1) unfolding res_def [symmetric] by (simp add: run)
qed

section \<open>Properties of the round plan\<close>

lemma targets_assign:
  "targets (assign k tn result) k' = (if k' = k then targets result k @ [tn] else targets result k')"
  by (simp add: assign_def targets_def update_conv' split: option.splits)

lemma distinct_assign:
  "distinct (map fst result) \<Longrightarrow> distinct (map fst (assign k tn result))"
  by (simp add: assign_def distinct_update split: option.splits)

lemma generatorForRandomNumber_in_range:
  assumes "validatorList \<noteq> []"
    and "generatorForRandomNumber 0 (int (length validatorList)) r = (i, r')"
  shows "0 \<le> i" "i < int (length validatorList)" "r' = tl r"
  using assms
  by (auto simp: generatorForRandomNumber_def Intn_def Let_def split: list.splits)

lemma sliceIndex_in_range:
  "0 \<le> i \<Longrightarrow> i < int (length xs) \<Longrightarrow> sliceIndex xs i = Inr (xs ! nat i)"
  by (simp add: sliceIndex_def)

lemma length_picks: "length (picks validatorList r n) = n"
  by (induction n arbitrary: r) (simp_all split: prod.splits)

lemma picks_in_list:
  "validatorList \<noteq> [] \<Longrightarrow> set (picks validatorList r n) \<subseteq> set validatorList"
proof (induction n arbitrary: r)
  case 0
  then show ?case by simp
next
  case (Suc n)
  obtain i r' where draw: "generatorForRandomNumber 0 (int (length validatorList)) r = (i, r')"
    by (cases "generatorForRandomNumber 0 (int (length validatorList)) r")
  from generatorForRandomNumber_in_range [OF Suc.prems draw]
  have "nat i < length validatorList"
    by simp
  then have "validatorList ! nat i \<in> set validatorList"
    by simp
  with Suc.IH [OF Suc.prems, of r'] draw show ?case
    by simp
qed

lemma rangeEdges_step:
  assumes "validatorList \<noteq> []"
    and "generatorForRandomNumber 0 (int (length validatorList)) r = (i, r')"
  shows "rangeEdges validatorList (edgeNode # rest) result r =
     rangeEdges validatorList rest (assign (validatorList ! nat i) (edgeMeta edgeNode) result) (tl r)"
  using generatorForRandomNumber_in_range [OF assms] assms(2)
  by (simp add: sliceIndex_in_range)

lemma rangeCandidates_step:
  assumes "validatorList \<noteq> []"
    and "generatorForRandomNumber 0 (int (length validatorList)) r = (i, r')"
  shows "rangeCandidates validatorList (candidateNode # rest) result r =
     (if validatorList ! nat i = DeviceId candidateNode
      then rangeCandidates validatorList rest result (tl r)
      else rangeCandidates validatorList rest
             (assign (validatorList ! nat i) (candidateMeta candidateNode) result) (tl r))"
  using generatorForRandomNumber_in_range [OF assms] assms(2)
  by (simp add: sliceIndex_in_range)

lemma rangeEdges_plan:
  assumes "validatorList \<noteq> []"
  shows "\<exists>result'. rangeEdges validatorList es result r = Inr (result', drop (length es) r) \<and>
     (distinct (map fst result) \<longrightarrow> distinct (map fst result')) \<and>
     (\<forall>k. targets result' k =
        targets result k @
        map snd (filter (\<lambda>p. fst p = k) (zip (picks validatorList r (length es)) (map edgeMeta es))))"
proof (induction es arbitrary: result r)
  case Nil
  show ?case by simp
next
  case (Cons edgeNode rest)
  obtain i r' where draw: "generatorForRandomNumber 0 (int (length validatorList)) r = (i, r')"
    by (cases "generatorForRandomNumber 0 (int (length validatorList)) r")
  have tail: "r' = tl r"
    using generatorForRandomNumber_in_range(3) [OF assms draw] .
  let ?result1 = "assign (validatorList ! nat i) (edgeMeta edgeNode) result"
  from Cons.IH [of ?result1 "tl r"]
  obtain result' where run: "rangeEdges validatorList rest ?result1 (tl r) = Inr (result', drop (length rest) (tl r))"
    and keys: "distinct (map fst ?result1) \<longrightarrow> distinct (map fst result')"
    and tgt: "\<forall>k. targets result' k =
        targets ?result1 k @
        map snd (filter (\<lambda>p. fst p = k) (zip (picks validatorList (tl r) (length rest)) (map edgeMeta rest)))"
    by blast
  have "rangeEdges validatorList (edgeNode # rest) result r = Inr (result', drop (length (edgeNode # rest)) r)"
    unfolding rangeEdges_step [OF assms draw] run by (simp add: drop_Suc)
  moreover have "distinct (map fst result) \<longrightarrow> distinct (map fst result')"
    using keys by (simp add: distinct_assign)
  moreover have "\<forall>k. targets result' k =
        targets result k @
        map snd (filter (\<lambda>p. fst p = k)
          (zip (picks validatorList r (length (edgeNode # rest))) (map edgeMeta (edgeNode # rest))))"
    using tgt draw tail by (simp add: targets_assign)
  ultimately show ?case
    by blast
qed

lemma rangeCandidates_plan:
  assumes "validatorList \<noteq> []"
  shows "\<exists>result'. rangeCandidates validatorList cs result r = Inr (result', drop (length cs) r) \<and>
     (distinct (map fst result) \<longrightarrow> distinct (map fst result')) \<and>
     (\<forall>k. targets result' k =
        targets result k @
        map snd (filter (\<lambda>p. fst p = k \<and> fst p \<noteq> deviceId (snd p))
          (zip (picks validatorList r (length cs)) (map candidateMeta cs))))"
proof (induction cs arbitrary: result r)
  case Nil
  show ?case by simp
next
  case (Cons candidateNode rest)
  obtain i r' where draw: "generatorForRandomNumber 0 (int (length validatorList)) r = (i, r')"
    by (cases "generatorForRandomNumber 0 (int (length validatorList)) r")
  have tail: "r' = tl r"
    using generatorForRandomNumber_in_range(3) [OF assms draw] .
  have own: "deviceId (candidateMeta candidateNode) = DeviceId candidateNode"
    by (simp add: candidateMeta_def)
  let ?pick = "validatorList ! nat i"
  let ?result1 = "if ?pick = DeviceId candidateNode then result
                  else assign ?pick (candidateMeta candidateNode) result"
  from Cons.IH [of ?result1 "tl r"]
  obtain result' where run: "rangeCandidates validatorList rest ?result1 (tl r) = Inr (result', drop (length rest) (tl r))"
    and keys: "distinct (map fst ?result1) \<longrightarrow> distinct (map fst result')"
    and tgt: "\<forall>k. targets result' k =
        targets ?result1 k @
        map snd (filter (\<lambda>p. fst p = k \<and> fst p \<noteq> deviceId (snd p))
          (zip (picks validatorList (tl r) (length rest)) (map candidateMeta rest)))"
    by blast
  have "rangeCandidates validatorList (candidateNode # rest) result r =
      rangeCandidates validatorList rest ?result1 (tl r)"
    unfolding rangeCandidates_step [OF assms draw] by simp
  then have "rangeCandidates validatorList (candidateNode # rest) result r =
      Inr (result', drop (length (candidateNode # rest)) r)"
    unfolding run by (simp add: drop_Suc)
  moreover have "distinct (map fst result) \<longrightarrow> distinct (map fst result')"
    using keys by (simp add: distinct_assign)
  moreover have "\<forall>k. targets result' k =
        targets result k @
        map snd (filter (\<lambda>p. fst p = k \<and> fst p \<noteq> deviceId (snd p))
          (zip (picks validatorList r (length (candidateNode # rest)))
               (map candidateMeta (candidateNode # rest))))"
    using tgt draw tail own by (simp add: targets_assign)
  ultimately show ?case
    by blast
qed

lemma rangeEdges_no_validators:
  "rangeEdges [] (edgeNode # rest) result r = Inl (Panic IndexOutOfRange)"
  by (simp add: generatorForRandomNumber_def sliceIndex_def)

lemma rangeCandidates_no_validators:
  "rangeCandidates [] (candidateNode # rest) result r = Inl (Panic IndexOutOfRange)"
  by (simp add: generatorForRandomNumber_def sliceIndex_def)

lemma validateMapping_validators:
  assumes "validateMapping nodeManager validatorList r = Inr plan"
  shows "validatorList \<noteq> []"
proof
  assume none: "validatorList = []"
  show False
  proof (cases "EdgeNodeMap nodeManager")
    case (Cons edgeNode rest)
    with assms none show False
      by (simp add: validateMapping_def rangeEdges_no_validators del: rangeEdges.simps(2))
  next
    case Nil
    show False
    proof (cases "CandidateNodeMap nodeManager")
      case (Cons candidateNode rest)
      with assms none Nil show False
        by (simp add: validateMapping_def rangeCandidates_no_validators
            del: rangeCandidates.simps(2))
    next
      case noCandidates: Nil
      with assms none Nil show False
        by (simp add: validateMapping_def)
    qed
  qed
qed

lemma validateMapping_targets:
  assumes "validateMapping nodeManager validatorList r = Inr plan"
  shows "distinct (map fst plan) \<and>
     (\<forall>k. targets plan k =
        map snd (filter (\<lambda>p. fst p = k)
          (zip (picks validatorList r (length (EdgeNodeMap nodeManager)))
               (map edgeMeta (EdgeNodeMap nodeManager)))) @
        map snd (filter (\<lambda>p. fst p = k \<and> fst p \<noteq> deviceId (snd p))
          (zip (picks validatorList (drop (length (EdgeNodeMap nodeManager)) r)
                  (length (CandidateNodeMap nodeManager)))
               (map candidateMeta (CandidateNodeMap nodeManager)))))"
proof -
  have vl: "validatorList \<noteq> []"
    using assms by (rule validateMapping_validators)
  from rangeEdges_plan [OF vl, of "EdgeNodeMap nodeManager" "[]" r]
  obtain result1 where e_run: "rangeEdges validatorList (EdgeNodeMap nodeManager) [] r =
        Inr (result1, drop (length (EdgeNodeMap nodeManager)) r)"
    and e_keys: "distinct (map fst result1)"
    and e_tgt: "\<forall>k. targets result1 k =
        targets [] k @
        map snd (filter (\<lambda>p. fst p = k)
          (zip (picks validatorList r (length (EdgeNodeMap nodeManager)))
               (map edgeMeta (EdgeNodeMap nodeManager))))"
    by auto
  from rangeCandidates_plan [OF vl, of "CandidateNodeMap nodeManager" result1
      "drop (length (EdgeNodeMap nodeManager)) r"]
  obtain result2 r2 where c_run: "rangeCandidates validatorList (CandidateNodeMap nodeManager) result1
        (drop (length (EdgeNodeMap nodeManager)) r) = Inr (result2, r2)"
    and c_keys: "distinct (map fst result1) \<longrightarrow> distinct (map fst result2)"
    and c_tgt: "\<forall>k. targets result2 k =
        targets result1 k @
        map snd (filter (\<lambda>p. fst p = k \<and> fst p \<noteq> deviceId (snd p))
          (zip (picks validatorList (drop (length (EdgeNodeMap nodeManager)) r)
                  (length (CandidateNodeMap nodeManager)))
               (map candidateMeta (CandidateNodeMap nodeManager))))"
    by blast
  from assms have "plan = result2"
    by (simp add: validateMapping_def e_run c_run split: if_splits)
  moreover have "targets [] k = []" for k
    by (simp add: targets_def)
  ultimately show ?thesis
    using e_keys c_keys e_tgt c_tgt by simp
qed

lemma plan_entry_targets:
  "distinct (map fst plan) \<Longrightarrow> entry \<in> set plan \<Longrightarrow> targets plan (fst entry) = snd entry"
  by (cases entry) (simp add: targets_def)

lemma plan_targets_entry:
  "tn \<in> set (targets plan k) \<Longrightarrow> (k, targets plan k) \<in> set plan"
  by (auto simp: targets_def split: option.splits dest: map_of_SomeD)

lemma zip_member:
  "j < length ps \<Longrightarrow> j < length ys \<Longrightarrow> (ps ! j, ys ! j) \<in> set (zip ps ys)"
  unfolding in_set_zip by simp blast

lemma in_edge_part:
  assumes "tn \<in> set (map snd (filter (\<lambda>p. fst p = k) (zip ps (map edgeMeta es))))"
  shows "nodeType tn = NodeEdge"
proof -
  from assms have "(k, tn) \<in> set (zip ps (map edgeMeta es))"
    by (simp add: image_iff)
  then have "tn \<in> set (map edgeMeta es)"
    by (rule set_zip_rightD)
  then obtain e where "tn = edgeMeta e"
    by (simp add: image_iff) blast
  then show ?thesis
    by (simp add: edgeMeta_def)
qed

lemma in_candidate_part:
  assumes "tn \<in> set (map snd (filter (\<lambda>p. fst p = k \<and> fst p \<noteq> deviceId (snd p))
                        (zip ps (map candidateMeta cs))))"
  shows "deviceId tn \<noteq> k \<and> (\<exists>j < length cs. j < length ps \<and> ps ! j = k \<and> tn = candidateMeta (cs ! j))"
proof -
  from assms have mem: "(k, tn) \<in> set (zip ps (map candidateMeta cs))" and ne: "k \<noteq> deviceId tn"
    by (simp_all add: image_iff)
  from mem obtain j where j: "j < length ps" "j < length (map candidateMeta cs)" "ps ! j = k"
    "map candidateMeta cs ! j = tn"
    unfolding in_set_zip by auto
  from j(2) have lt: "j < length cs"
    by simp
  with j(4) have "candidateMeta (cs ! j) = tn"
    by simp
  with ne j(1,3) lt show ?thesis
    by blast
qed

lemma edge_assigned:
  assumes "i < length es" "length ps = length es"
  shows "edgeMeta (es ! i) \<in> set (map snd (filter (\<lambda>p. fst p = ps ! i) (zip ps (map edgeMeta es))))"
proof -
  from assms have "(ps ! i, map edgeMeta es ! i) \<in> set (zip ps (map edgeMeta es))"
    by (intro zip_member) simp_all
  with assms(1) have "(ps ! i, edgeMeta (es ! i)) \<in> set (filter (\<lambda>p. fst p = ps ! i) (zip ps (map edgeMeta es)))"
    by simp
  then have "snd (ps ! i, edgeMeta (es ! i)) \<in>
      snd ` set (filter (\<lambda>p. fst p = ps ! i) (zip ps (map edgeMeta es)))"
    by (rule imageI)
  then show ?thesis
    by simp
qed

lemma candidate_assigned:
  assumes "j < length cs" "length ps = length cs" "ps ! j \<noteq> DeviceId (cs ! j)"
  shows "candidateMeta (cs ! j) \<in>
     set (map snd (filter (\<lambda>p. fst p = ps ! j \<and> fst p \<noteq> deviceId (snd p))
                    (zip ps (map candidateMeta cs))))"
proof -
  from assms have "(ps ! j, map candidateMeta cs ! j) \<in> set (zip ps (map candidateMeta cs))"
    by (intro zip_member) simp_all
  moreover have "deviceId (candidateMeta (cs ! j)) = DeviceId (cs ! j)"
    by (simp add: candidateMeta_def)
  ultimately have "(ps ! j, candidateMeta (cs ! j)) \<in>
      set (filter (\<lambda>p. fst p = ps ! j \<and> fst p \<noteq> deviceId (snd p)) (zip ps (map candidateMeta cs)))"
    using assms(1,3) by simp
  then have "snd (ps ! j, candidateMeta (cs ! j)) \<in>
      snd ` set (filter (\<lambda>p. fst p = ps ! j \<and> fst p \<noteq> deviceId (snd p))
                  (zip ps (map candidateMeta cs)))"
    by (rule imageI)
  then show ?thesis
    by simp
qed

text \<open>
  C2. A plan built by \<open>validateMapping\<close> has one entry per validator, and the targets
  of validator \<open>k\<close> are exactly: the online edges whose draw was \<open>k\<close>, in the order of
  the walk, then the online candidates whose draw was \<open>k\<close> and whose own device id is
  not \<open>k\<close>. Hence no entry lists a candidate under its own device id; every online edge
  is listed under the validator drawn for it, which is one of the validator list; and,
  the candidates having distinct device ids, a candidate that drew itself is listed
  under no validator at all (it is dropped, not given to another validator), while a
  candidate that drew another validator is listed under that validator and no other.
\<close>

theorem validateMapping_plan:
  assumes "validateMapping nodeManager validatorList r = Inr plan"
  shows "distinct (map fst plan) \<and>
     (\<forall>k. targets plan k =
        map snd (filter (\<lambda>p. fst p = k)
          (zip (picks validatorList r (length (EdgeNodeMap nodeManager)))
               (map edgeMeta (EdgeNodeMap nodeManager)))) @
        map snd (filter (\<lambda>p. fst p = k \<and> fst p \<noteq> deviceId (snd p))
          (zip (picks validatorList (drop (length (EdgeNodeMap nodeManager)) r)
                  (length (CandidateNodeMap nodeManager)))
               (map candidateMeta (CandidateNodeMap nodeManager))))) \<and>
     (\<forall>entry \<in> set plan. \<forall>tn \<in> set (snd entry).
        nodeType tn = NodeCandidate \<longrightarrow> deviceId tn \<noteq> fst entry) \<and>
     (\<forall>i < length (EdgeNodeMap nodeManager).
        picks validatorList r (length (EdgeNodeMap nodeManager)) ! i \<in> set validatorList \<and>
        (\<exists>entry \<in> set plan.
           fst entry = picks validatorList r (length (EdgeNodeMap nodeManager)) ! i \<and>
           edgeMeta (EdgeNodeMap nodeManager ! i) \<in> set (snd entry))) \<and>
     (distinct (map DeviceId (CandidateNodeMap nodeManager)) \<longrightarrow>
        (\<forall>j < length (CandidateNodeMap nodeManager).
           if picks validatorList (drop (length (EdgeNodeMap nodeManager)) r)
                (length (CandidateNodeMap nodeManager)) ! j = DeviceId (CandidateNodeMap nodeManager ! j)
           then \<forall>entry \<in> set plan. candidateMeta (CandidateNodeMap nodeManager ! j) \<notin> set (snd entry)
           else (\<exists>entry \<in> set plan.
                   fst entry = picks validatorList (drop (length (EdgeNodeMap nodeManager)) r)
                                 (length (CandidateNodeMap nodeManager)) ! j \<and>
                   candidateMeta (CandidateNodeMap nodeManager ! j) \<in> set (snd entry)) \<and>
                (\<forall>entry \<in> set plan.
                   candidateMeta (CandidateNodeMap nodeManager ! j) \<in> set (snd entry) \<longrightarrow>
                   fst entry = picks validatorList (drop (length (EdgeNodeMap nodeManager)) r)
                                 (length (CandidateNodeMap nodeManager)) ! j)))"
proof -
  define es where "es = EdgeNodeMap nodeManager"
  define cs where "cs = CandidateNodeMap nodeManager"
  define pe where "pe = picks validatorList r (length es)"
  define pc where "pc = picks validatorList (drop (length es) r) (length cs)"
  define E where "E = (\<lambda>k. map snd (filter (\<lambda>p. fst p = k) (zip pe (map edgeMeta es))))"
  define C where "C = (\<lambda>k. map snd (filter (\<lambda>p. fst p = k \<and> fst p \<noteq> deviceId (snd p))
                              (zip pc (map candidateMeta cs))))"
  have vl: "validatorList \<noteq> []"
    using assms by (rule validateMapping_validators)
  have len_pe: "length pe = length es" and len_pc: "length pc = length cs"
    by (simp_all add: pe_def pc_def length_picks)
  have keys: "distinct (map fst plan)"
    using validateMapping_targets [OF assms] by (rule conjunct1)
  have tgt: "targets plan k = E k @ C k" for k
    using validateMapping_targets [OF assms]
    unfolding E_def C_def pe_def pc_def es_def cs_def by blast
  have entry: "snd entry = E (fst entry) @ C (fst entry)" if "entry \<in> set plan" for entry
    using plan_entry_targets [OF keys that] tgt [of "fst entry"] by simp
  have listed: "\<exists>entry \<in> set plan. fst entry = k \<and> tn \<in> set (snd entry)"
    if "tn \<in> set (E k) \<or> tn \<in> set (C k)" for tn k
  proof -
    from that have "tn \<in> set (targets plan k)"
      unfolding tgt by (simp only: set_append Un_iff)
    then have "(k, targets plan k) \<in> set plan"
      by (rule plan_targets_entry)
    with \<open>tn \<in> set (targets plan k)\<close> show ?thesis
      by (intro bexI [of _ "(k, targets plan k)"]) simp_all
  qed
  have parts: "tn \<in> set (E (fst entry)) \<or> tn \<in> set (C (fst entry))"
    if "entry \<in> set plan" "tn \<in> set (snd entry)" for entry tn
    using that(2) unfolding entry [OF that(1)] by (simp only: set_append Un_iff)
  have in_E: "nodeType tn = NodeEdge" if "tn \<in> set (E k)" for tn k
    using that unfolding E_def by (rule in_edge_part)
  have in_C: "deviceId tn \<noteq> k \<and> (\<exists>j < length cs. j < length pc \<and> pc ! j = k \<and> tn = candidateMeta (cs ! j))"
    if "tn \<in> set (C k)" for tn k
    using that unfolding C_def by (rule in_candidate_part)
  have cand_type: "nodeType (candidateMeta c) = NodeCandidate" for c
    by (simp add: candidateMeta_def)
  have cand_id: "deviceId (candidateMeta c) = DeviceId c" for c
    by (simp add: candidateMeta_def)
  have no_self: "\<forall>entry \<in> set plan. \<forall>tn \<in> set (snd entry).
      nodeType tn = NodeCandidate \<longrightarrow> deviceId tn \<noteq> fst entry"
  proof (intro ballI impI)
    fix entry tn
    assume e: "entry \<in> set plan" and t: "tn \<in> set (snd entry)" and c: "nodeType tn = NodeCandidate"
    from parts [OF e t] show "deviceId tn \<noteq> fst entry"
    proof
      assume "tn \<in> set (E (fst entry))"
      from in_E [OF this] c show ?thesis
        by simp
    next
      assume "tn \<in> set (C (fst entry))"
      from in_C [OF this] show ?thesis
        by (rule conjunct1)
    qed
  qed
  have edges: "\<forall>i < length es. pe ! i \<in> set validatorList \<and>
      (\<exists>entry \<in> set plan. fst entry = pe ! i \<and> edgeMeta (es ! i) \<in> set (snd entry))"
  proof (intro allI impI conjI)
    fix i
    assume i: "i < length es"
    with len_pe have "pe ! i \<in> set pe"
      by simp
    with picks_in_list [OF vl, of r "length es"] show "pe ! i \<in> set validatorList"
      unfolding pe_def by blast
    from edge_assigned [OF i len_pe] have "edgeMeta (es ! i) \<in> set (E (pe ! i))"
      unfolding E_def .
    then show "\<exists>entry \<in> set plan. fst entry = pe ! i \<and> edgeMeta (es ! i) \<in> set (snd entry)"
      by (intro listed disjI1)
  qed
  have cands: "\<forall>j < length cs.
      if pc ! j = DeviceId (cs ! j)
      then \<forall>entry \<in> set plan. candidateMeta (cs ! j) \<notin> set (snd entry)
      else (\<exists>entry \<in> set plan. fst entry = pc ! j \<and> candidateMeta (cs ! j) \<in> set (snd entry)) \<and>
           (\<forall>entry \<in> set plan. candidateMeta (cs ! j) \<in> set (snd entry) \<longrightarrow> fst entry = pc ! j)"
    if dist: "distinct (map DeviceId cs)"
  proof (intro allI impI)
    fix j
    assume j: "j < length cs"
    have only: "fst entry = pc ! j \<and> DeviceId (cs ! j) \<noteq> fst entry"
      if e: "entry \<in> set plan" and t: "candidateMeta (cs ! j) \<in> set (snd entry)" for entry
    proof -
      from parts [OF e t] have "candidateMeta (cs ! j) \<in> set (C (fst entry))"
        using in_E [of "candidateMeta (cs ! j)" "fst entry"] cand_type [of "cs ! j"] by auto
      from in_C [OF this] obtain j' where ne: "deviceId (candidateMeta (cs ! j)) \<noteq> fst entry"
        and j': "j' < length cs" "pc ! j' = fst entry"
        and same: "candidateMeta (cs ! j) = candidateMeta (cs ! j')"
        by blast
      from same have "DeviceId (cs ! j) = DeviceId (cs ! j')"
        using cand_id [of "cs ! j"] cand_id [of "cs ! j'"] by simp
      with nth_eq_iff_index_eq [OF dist, of j j'] j j'(1) have "j = j'"
        by simp
      with j'(2) ne show ?thesis
        by (simp add: cand_id)
    qed
    show "if pc ! j = DeviceId (cs ! j)
      then \<forall>entry \<in> set plan. candidateMeta (cs ! j) \<notin> set (snd entry)
      else (\<exists>entry \<in> set plan. fst entry = pc ! j \<and> candidateMeta (cs ! j) \<in> set (snd entry)) \<and>
           (\<forall>entry \<in> set plan. candidateMeta (cs ! j) \<in> set (snd entry) \<longrightarrow> fst entry = pc ! j)"
    proof (cases "pc ! j = DeviceId (cs ! j)")
      case True
      have "candidateMeta (cs ! j) \<notin> set (snd entry)" if e: "entry \<in> set plan" for entry
      proof
        assume "candidateMeta (cs ! j) \<in> set (snd entry)"
        from only [OF e this] have "fst entry = pc ! j" and "DeviceId (cs ! j) \<noteq> fst entry"
          by (rule conjunct1, rule conjunct2)
        with True show False
          by simp
      qed
      with True show ?thesis
        by simp
    next
      case False
      from candidate_assigned [OF j len_pc False]
      have "candidateMeta (cs ! j) \<in> set (C (pc ! j))"
        unfolding C_def .
      then have "\<exists>entry \<in> set plan. fst entry = pc ! j \<and> candidateMeta (cs ! j) \<in> set (snd entry)"
        by (intro listed disjI2)
      moreover have "\<forall>entry \<in> set plan.
          candidateMeta (cs ! j) \<in> set (snd entry) \<longrightarrow> fst entry = pc ! j"
        using only by blast
      ultimately show ?thesis
        using False by simp
    qed
  qed
  from keys tgt no_self edges cands show ?thesis
    unfolding E_def C_def pe_def pc_def es_def cs_def by blast
qed

text \<open>
  The example round: \<open>c1\<close> drew itself and is in neither entry; \<open>c2\<close> is the only
  target of \<open>c1\<close>, and the edge is a target of \<open>c2\<close>.
\<close>

theorem validateMapping_plan_witness:
  "validateMapping exampleManager [''c1'', ''c2''] [1, 0, 0] = Inr examplePlan \<and>
   distinct (map fst examplePlan) \<and>
   targets examplePlan ''c1'' = [candidateMeta (CandidateNodeMap exampleManager ! 1)] \<and>
   candidateMeta (CandidateNodeMap exampleManager ! 0) \<notin> set (snd (examplePlan ! 0)) \<and>
   candidateMeta (CandidateNodeMap exampleManager ! 0) \<notin> set (snd (examplePlan ! 1)) \<and>
   (\<exists>entry \<in> set examplePlan.
      fst entry = ''c2'' \<and> edgeMeta (EdgeNodeMap exampleManager ! 0) \<in> set (snd entry))"
proof -
  have run: "validateMapping exampleManager [''c1'', ''c2''] [1, 0, 0] = Inr examplePlan"
    by (simp add: validateMapping_def exampleManager_def examplePlan_def
        generatorForRandomNumber_def Intn_def sliceIndex_def assign_def edgeMeta_def
        candidateMeta_def)
  have pe: "picks [''c1'', ''c2''] [1, 0, 0] (length (EdgeNodeMap exampleManager)) = [''c2'']"
    by (simp add: exampleManager_def generatorForRandomNumber_def Intn_def)
  have pc: "picks [''c1'', ''c2''] (drop (length (EdgeNodeMap exampleManager)) [1, 0, 0])
      (length (CandidateNodeMap exampleManager)) = [''c1'', ''c1'']"
    by (simp add: exampleManager_def generatorForRandomNumber_def Intn_def)
  have dist: "distinct (map DeviceId (CandidateNodeMap exampleManager))"
    by (simp add: exampleManager_def)
  have self: "[''c1'', ''c1''] ! 0 = DeviceId (CandidateNodeMap exampleManager ! 0)"
    by (simp add: exampleManager_def)
  have len: "0 < length (CandidateNodeMap exampleManager)" "0 < length (EdgeNodeMap exampleManager)"
    by (simp_all add: exampleManager_def)
  have mem: "examplePlan ! 0 \<in> set examplePlan" "examplePlan ! 1 \<in> set examplePlan"
    by (simp_all add: examplePlan_def)
  note plan = validateMapping_plan [OF run, unfolded pe pc]
  from plan have "distinct (map fst examplePlan)"
    by (rule conjunct1)
  moreover from plan have "targets examplePlan ''c1'' =
      map snd (filter (\<lambda>p. fst p = ''c1'')
        (zip [''c2''] (map edgeMeta (EdgeNodeMap exampleManager)))) @
      map snd (filter (\<lambda>p. fst p = ''c1'' \<and> fst p \<noteq> deviceId (snd p))
        (zip [''c1'', ''c1''] (map candidateMeta (CandidateNodeMap exampleManager))))"
    by blast
  then have "targets examplePlan ''c1'' = [candidateMeta (CandidateNodeMap exampleManager ! 1)]"
    by (simp add: exampleManager_def candidateMeta_def)
  moreover from plan dist len(1) self
  have dropped: "\<forall>entry \<in> set examplePlan.
      candidateMeta (CandidateNodeMap exampleManager ! 0) \<notin> set (snd entry)"
    by (metis (no_types, lifting))
  from dropped mem(1) have "candidateMeta (CandidateNodeMap exampleManager ! 0) \<notin> set (snd (examplePlan ! 0))"
    by (rule bspec)
  moreover from dropped mem(2)
  have "candidateMeta (CandidateNodeMap exampleManager ! 0) \<notin> set (snd (examplePlan ! 1))"
    by (rule bspec)
  moreover from plan len(2) have "\<exists>entry \<in> set examplePlan.
      fst entry = [''c2''] ! 0 \<and> edgeMeta (EdgeNodeMap exampleManager ! 0) \<in> set (snd entry)"
    by blast
  then have "\<exists>entry \<in> set examplePlan.
      fst entry = ''c2'' \<and> edgeMeta (EdgeNodeMap exampleManager ! 0) \<in> set (snd entry)"
    by simp
  ultimately show ?thesis
    using run by blast
qed

section \<open>Properties of running a round\<close>











end
